theory Spec2Isabelle
  imports Main
begin

section \<open>JavaScript values\<close>

text \<open>
  The values that travel through the agent are JSON documents parsed by the HTTP server,
  plus \<open>undefined\<close>. A number \<open>Num n\<close> stands for the JavaScript number \<open>n\<close> where \<open>n\<close>
  is a safe integer (magnitude at most \<open>2^53\<close>); fractions are left out of the model.
  An object \<open>Obj kvs\<close> lists its own enumerable properties in the order \<open>Object.keys\<close>
  reports them; such an object inherits from \<open>Object.prototype\<close>.
\<close>

datatype jsval =
    Undefined
  | Null
  | Bool bool
  | Num int
  | Str string
  | Arr "jsval list"
  | Obj "(string \<times> jsval) list"

text \<open>Truthiness, as tested by \<open>if (error)\<close> and \<open>if (taskfn)\<close>.\<close>

fun truthy :: "jsval \<Rightarrow> bool" where
  "truthy Undefined = False"
| "truthy Null = False"
| "truthy (Bool b) = b"
| "truthy (Num n) = (n \<noteq> 0)"
| "truthy (Str s) = (s \<noteq> [])"
| "truthy (Arr xs) = True"
| "truthy (Obj kvs) = True"

definition squote :: string where
  "squote = [CHR 0x27]"

definition dquote :: string where
  "dquote = [CHR 0x22]"

fun show_nat :: "nat \<Rightarrow> string" where
  "show_nat n =
     (if n < 10 then [''0123456789'' ! n]
      else show_nat (n div 10) @ [''0123456789'' ! (n mod 10)])"

declare show_nat.simps [simp del]

definition show_int :: "int \<Rightarrow> string" where
  "show_int i = (if i < 0 then ''-'' @ show_nat (nat (- i)) else show_nat (nat i))"

fun join :: "string \<Rightarrow> string list \<Rightarrow> string" where
  "join sep [] = []"
| "join sep [x] = x"
| "join sep (x # y # ys) = x @ sep @ join sep (y # ys)"

text \<open>
  Conversion to a string, as performed by \<open>+\<close> with a string operand and by a computed
  property access \<open>o[v]\<close>. An array joins its elements with commas (\<open>null\<close> and
  \<open>undefined\<close> elements give the empty string). An object parsed from JSON gives
  \<open>[object Object]\<close>, unless it has an own property \<open>toString\<close>: that property cannot be a
  function, the inherited \<open>valueOf\<close> returns the object itself, and the conversion throws a
  \<open>TypeError\<close> (the result \<open>None\<close>).
\<close>

fun js_to_string :: "jsval \<Rightarrow> string option" where
  "js_to_string Undefined = Some ''undefined''"
| "js_to_string Null = Some ''null''"
| "js_to_string (Bool b) = Some (if b then ''true'' else ''false'')"
| "js_to_string (Num n) = Some (show_int n)"
| "js_to_string (Str s) = Some s"
| "js_to_string (Arr xs) =
     map_option (join '','')
       (those (map (\<lambda>x. if x = Undefined \<or> x = Null then Some [] else js_to_string x) xs))"
| "js_to_string (Obj kvs) =
     (if ''toString'' \<in> set (map fst kvs) then None else Some ''[object Object]'')"

text \<open>
  The string-keyed members every plain object (\<open>{}\<close> or an object literal) inherits from
  \<open>Object.prototype\<close>. All of them are functions, except the accessor \<open>__proto__\<close>, whose
  getter returns the prototype object and whose setter re-parents the receiver.
\<close>

definition object_prototype_names :: "string list" where
  "object_prototype_names =
     [''constructor'', ''__defineGetter__'', ''__defineSetter__'', ''hasOwnProperty'',
      ''__lookupGetter__'', ''__lookupSetter__'', ''isPrototypeOf'', ''propertyIsEnumerable'',
      ''toString'', ''valueOf'', ''__proto__'', ''toLocaleString'']"

text \<open>Own properties: assignment keeps the position of an existing key and appends a new one.\<close>

fun put :: "string \<Rightarrow> 'v \<Rightarrow> (string \<times> 'v) list \<Rightarrow> (string \<times> 'v) list" where
  "put k v [] = [(k, v)]"
| "put k v ((k', v') # kvs) = (if k' = k then (k, v) # kvs else (k', v') # put k v kvs)"

definition js_get :: "(string \<times> jsval) list \<Rightarrow> string \<Rightarrow> jsval" where
  "js_get kvs k = (case map_of kvs k of Some v \<Rightarrow> v | None \<Rightarrow> Undefined)"

definition hasOwnProperty :: "(string \<times> 'v) list \<Rightarrow> string \<Rightarrow> bool" where
  "hasOwnProperty kvs k = (k \<in> set (map fst kvs))"


section \<open>The dispatcher: \<open>lib/task_agent/task_agent.js\<close>\<close>

subsection \<open>The completion gate of one request\<close>

text \<open>
  The variables \<open>cbcount\<close>, \<open>value\<close> and \<open>error\<close> that \<open>handler\<close> declares for each request,
  together with what the closures \<open>fcb\<close>, \<open>finish\<close>, \<open>progress\<close> and \<open>event\<close> do to the outside:
  the calls of \<open>res.send\<close> (status and body, oldest first), the calls of \<open>next()\<close> and the
  trace records of \<open>event\<close>.
\<close>

record gate =
  cbcount :: nat
  value_var :: jsval
  error_var :: jsval
  sent :: "(nat \<times> jsval) list"
  next_calls :: nat
  traced :: "(jsval \<times> jsval) list"

definition gate0 :: gate where
  "gate0 = \<lparr>cbcount = 0, value_var = Undefined, error_var = Undefined, sent = [],
            next_calls = 0, traced = []\<rparr>"

definition fcb :: "gate \<Rightarrow> gate" where
  "fcb g =
     (let g1 = g\<lparr>cbcount := cbcount g + 1\<rparr> in
      if cbcount g1 = 2 then
        (if truthy (error_var g1)
         then g1\<lparr>sent := sent g1 @ [(500, error_var g1)], next_calls := next_calls g1 + 1\<rparr>
         else g1\<lparr>sent := sent g1 @ [(200, value_var g1)], next_calls := next_calls g1 + 1\<rparr>)
      else g1)"

definition finish :: "gate \<Rightarrow> gate" where
  "finish g = fcb g"

definition progress :: "jsval \<Rightarrow> gate \<Rightarrow> gate" where
  "progress v g = g"

definition event :: "jsval \<Rightarrow> jsval \<Rightarrow> gate \<Rightarrow> gate" where
  "event name message g =
     (let g1 = g\<lparr>traced := traced g @ [(name, message)]\<rparr> in
      if name = Str ''finish'' then fcb (g1\<lparr>value_var := message\<rparr>)
      else if name = Str ''error'' then g1\<lparr>error_var := message\<rparr>
      else g1)"

text \<open>
  A task function receives the three closures and calls them as it pleases. One call is a
  signal; what a task drives during a request is a list of signals, delivered in order.
\<close>

datatype signal = Finish | Progress jsval | Event jsval jsval

fun deliver :: "signal \<Rightarrow> gate \<Rightarrow> gate" where
  "deliver Finish g = finish g"
| "deliver (Progress v) g = progress v g"
| "deliver (Event name message) g = event name message g"

definition run_signals :: "signal list \<Rightarrow> gate \<Rightarrow> gate" where
  "run_signals sigs g = fold deliver sigs g"

text \<open>
  Vocabulary for stating the handshake: an acknowledgment is a call of \<open>finish()\<close> or an
  emission \<open>event("finish", payload)\<close>; \<open>upto_ack n sigs\<close> is the part of \<open>sigs\<close> up to and
  including its \<open>n\<close>-th acknowledgment; \<open>recorded_error\<close> and \<open>recorded_value\<close> are the last
  payloads given to \<open>event("error", _)\<close> and \<open>event("finish", _)\<close>.
\<close>

fun is_ack :: "signal \<Rightarrow> bool" where
  "is_ack Finish = True"
| "is_ack (Progress v) = False"
| "is_ack (Event name message) = (name = Str ''finish'')"

fun is_finish_event :: "signal \<Rightarrow> bool" where
  "is_finish_event (Event name message) = (name = Str ''finish'')"
| "is_finish_event s = False"

definition acks :: "signal list \<Rightarrow> nat" where
  "acks sigs = length (filter is_ack sigs)"

fun upto_ack :: "nat \<Rightarrow> signal list \<Rightarrow> signal list" where
  "upto_ack n [] = []"
| "upto_ack n (s # ss) =
     (if is_ack s then (if n \<le> 1 then [s] else s # upto_ack (n - 1) ss)
      else s # upto_ack n ss)"

fun record_error :: "signal \<Rightarrow> jsval \<Rightarrow> jsval" where
  "record_error (Event name message) e =
     (if name \<noteq> Str ''finish'' \<and> name = Str ''error'' then message else e)"
| "record_error s e = e"

fun record_value :: "signal \<Rightarrow> jsval \<Rightarrow> jsval" where
  "record_value (Event name message) v = (if name = Str ''finish'' then message else v)"
| "record_value s v = v"

definition recorded_error :: "signal list \<Rightarrow> jsval" where
  "recorded_error sigs = fold record_error sigs Undefined"

definition recorded_value :: "signal list \<Rightarrow> jsval" where
  "recorded_value sigs = fold record_value sigs Undefined"

definition response_for :: "jsval \<Rightarrow> jsval \<Rightarrow> nat \<times> jsval" where
  "response_for e v = (if truthy e then (500, e) else (200, v))"

subsection \<open>The request handler\<close>

datatype rest_error =
    InternalError string
  | InvalidArgumentError string
  | ResourceNotFoundError string jsval

text \<open>The two records \<open>handler\<close> writes with \<open>req.log.info\<close>: fields, format string, argument.\<close>

datatype log_entry =
    Info_task_params "(string \<times> jsval) list" string jsval
  | Info_not_logging string jsval

text \<open>
  A queue definition names its tasks, may carry \<open>log_params\<close>, and carries the function
  \<open>onhttpmsg\<close> (\<open>None\<close> when the property is missing). Task functions are opaque: \<open>'h\<close>.
\<close>

record 'h queue_defn =
  tasks :: "string list"
  log_params :: jsval
  onhttpmsg :: "'h option"

text \<open>\<open>queueDefns\<close> is \<open>None\<close> until \<open>useQueues\<close> has been called.\<close>

record 'h task_agent =
  uuid :: string
  timeoutSeconds :: int
  sysinfo :: jsval
  server_address :: jsval
  queueDefns :: "'h queue_defn list option"

text \<open>
  What \<open>handler\<close> reads of a request: the header \<open>x-server-uuid\<close> as \<open>req.header\<close> returns it,
  \<open>req.headers.host\<close>, \<open>req.getId()\<close>, and the own properties of \<open>req.params\<close>.
  \<open>req.params\<close> is taken to have no own property named \<open>hasOwnProperty\<close>, so that the
  two calls \<open>req.params.hasOwnProperty(...)\<close> reach the built-in.
\<close>

record request =
  header_x_server_uuid :: "string option"
  headers_host :: jsval
  getId :: string
  req_params :: "(string \<times> jsval) list"

text \<open>The data fields of the object \<open>params\<close> passed to the task function.\<close>

record task_context =
  ctx_req_id :: string
  ctx_req_host :: jsval
  ctx_serverAddress :: jsval
  ctx_task :: jsval
  ctx_params :: jsval
  ctx_sysinfo :: jsval

text \<open>
  The local object \<open>dispatch = {}\<close>. An assignment \<open>dispatch[j] = f\<close> creates an own property,
  except for \<open>j = "__proto__"\<close>, which runs the inherited setter: nothing happens for
  \<open>undefined\<close>, and a function becomes the prototype of \<open>dispatch\<close>. Lookups in a re-parented
  table depend on the properties of that function and are not followed further.
\<close>

datatype 'h dispatch = Table "(string \<times> 'h option) list" | Reparented

fun dispatch_put :: "string \<Rightarrow> 'h option \<Rightarrow> 'h dispatch \<Rightarrow> 'h dispatch" where
  "dispatch_put j f (Table own) =
     (if j = ''__proto__'' then (case f of None \<Rightarrow> Table own | Some h \<Rightarrow> Reparented)
      else Table (put j f own))"
| "dispatch_put j f Reparented = Reparented"

text \<open>
  The read \<open>dispatch[key]\<close>: an own property wins, also one that holds \<open>undefined\<close>;
  otherwise the member inherited from \<open>Object.prototype\<close>, if any.
\<close>

datatype 'h member = Own_function 'h | Inherited_function string | Inherited_object | Falsy

definition dispatch_get :: "(string \<times> 'h option) list \<Rightarrow> string \<Rightarrow> 'h member" where
  "dispatch_get own k =
     (case map_of own k of
        Some (Some h) \<Rightarrow> Own_function h
      | Some None \<Rightarrow> Falsy
      | None \<Rightarrow>
          if k = ''__proto__'' then Inherited_object
          else if k \<in> set object_prototype_names then Inherited_function k
          else Falsy)"

text \<open>The body of the two nested \<open>forEach\<close> loops, on the pair \<open>(logParams, dispatch)\<close>.\<close>

definition scan_task ::
  "'h queue_defn \<Rightarrow> jsval \<Rightarrow> string \<Rightarrow> bool \<times> 'h dispatch \<Rightarrow> bool \<times> 'h dispatch" where
  "scan_task i taskName j st =
     ((if Str j = taskName \<and> log_params i = Bool False then False else fst st),
      dispatch_put j (onhttpmsg i) (snd st))"

definition scan_defns ::
  "'h queue_defn list \<Rightarrow> jsval \<Rightarrow> bool \<times> 'h dispatch \<Rightarrow> bool \<times> 'h dispatch" where
  "scan_defns defns taskName st = fold (\<lambda>i. fold (scan_task i taskName) (tasks i)) defns st"

text \<open>
  How the synchronous part of \<open>handler\<close> ends: \<open>next(err)\<close>; the task function called with
  its context; an inherited built-in called with the context (it returns or throws, and
  nothing calls \<open>next\<close> or \<open>res.send\<close>); a \<open>TypeError\<close>; or a re-parented table.
\<close>

datatype 'h outcome =
    Next_error rest_error
  | Task_called 'h task_context
  | Builtin_called string task_context
  | TypeError_thrown
  | Not_modelled

record 'h handled =
  timeout_set :: "int option"
  logged :: "log_entry list"
  outcome :: "'h outcome"

definition rejected :: "rest_error \<Rightarrow> 'h handled" where
  "rejected e = \<lparr>timeout_set = None, logged = [], outcome = Next_error e\<rparr>"

definition wrong_server_message :: "string \<Rightarrow> string \<Rightarrow> string" where
  "wrong_server_message self_uuid target =
     ''received request for wrong server'' @ ''. we are: '' @ dquote @ self_uuid @ dquote @
     '' received: '' @ dquote @ target @ dquote"

definition handler :: "'h task_agent \<Rightarrow> request \<Rightarrow> 'h handled" where
  "handler self req =
     (let target = header_x_server_uuid req in
      if target \<noteq> None \<and> target \<noteq> Some (uuid self) then
        rejected (InternalError (wrong_server_message (uuid self)
          (case target of Some t \<Rightarrow> t | None \<Rightarrow> ''undefined'')))
      else if \<not> hasOwnProperty (req_params req) ''task'' then
        rejected (InvalidArgumentError (''Missing key '' @ squote @ ''task'' @ squote))
      else if \<not> hasOwnProperty (req_params req) ''params'' then
        rejected (InvalidArgumentError (''Missing key '' @ squote @ ''params'' @ squote))
      else
        let taskName = js_get (req_params req) ''task'';
            ms = (timeoutSeconds self + 300) * 1000
        in case queueDefns self of
             None \<Rightarrow> \<lparr>timeout_set = Some ms, logged = [], outcome = TypeError_thrown\<rparr>
           | Some defns \<Rightarrow>
               let st = scan_defns defns taskName (True, Table []);
                   entry =
                     (if fst st
                      then Info_task_params (req_params req) ''%s task params'' taskName
                      else Info_not_logging
                             ''Not logging task params for %s (log_params=false)'' taskName);
                   params =
                     \<lparr>ctx_req_id = getId req,
                      ctx_req_host = headers_host req,
                      ctx_serverAddress = server_address self,
                      ctx_task = js_get (req_params req) ''task'',
                      ctx_params = js_get (req_params req) ''params'',
                      ctx_sysinfo = sysinfo self\<rparr>
               in \<lparr>timeout_set = Some ms, logged = [entry],
                   outcome =
                     (case js_to_string (js_get (req_params req) ''task'') of
                        None \<Rightarrow> TypeError_thrown
                      | Some key \<Rightarrow>
                          (case snd st of
                             Reparented \<Rightarrow> Not_modelled
                           | Table own \<Rightarrow>
                               (case dispatch_get own key of
                                  Own_function taskfn \<Rightarrow> Task_called taskfn params
                                | Inherited_function f \<Rightarrow> Builtin_called f params
                                | Inherited_object \<Rightarrow> TypeError_thrown
                                | Falsy \<Rightarrow>
                                    Next_error (ResourceNotFoundError
                                      (''Unknown task, '' @ squote @ ''%s'' @ squote)
                                      (js_get (req_params req) ''task'')))))\<rparr>)"

text \<open>
  The responses of one request: the error passed to \<open>next\<close>, or what the gate sends while
  the task function drives the signals \<open>sigs\<close>; none in the remaining cases.
\<close>

datatype response = Error_response rest_error | Sent nat jsval

definition responses :: "'h handled \<Rightarrow> signal list \<Rightarrow> response list" where
  "responses r sigs =
     (case outcome r of
        Next_error e \<Rightarrow> [Error_response e]
      | Task_called taskfn params \<Rightarrow>
          map (\<lambda>(status, body). Sent status body) (sent (run_signals sigs gate0))
      | _ \<Rightarrow> [])"

definition registered :: "'h queue_defn list \<Rightarrow> string \<Rightarrow> bool" where
  "registered defns t = (\<exists>i\<in>set defns. t \<in> set (tasks i))"

definition addressed_here :: "'h task_agent \<Rightarrow> request \<Rightarrow> bool" where
  "addressed_here self req =
     (header_x_server_uuid req = None \<or> header_x_server_uuid req = Some (uuid self))"

definition plain_names :: "'h queue_defn \<Rightarrow> bool" where
  "plain_names i = (''__proto__'' \<notin> set (tasks i) \<or> onhttpmsg i = None)"

section \<open>Building the VM payload: \<open>lib/backends/dummy/tasks/machine_create.js\<close>\<close>

subsection \<open>The whitelists\<close>

definition DISK_PAYLOAD :: "(string \<times> bool) list" where
  "DISK_PAYLOAD =
     [(''image_name'', True), (''image_size'', True), (''image_uuid'', True),
      (''refreservation'', True), (''size'', True)]"

definition NIC_PAYLOAD :: "(string \<times> bool) list" where
  "NIC_PAYLOAD =
     [(''belongs_to_type'', False), (''belongs_to_uuid'', False), (''cn_uuid'', False),
      (''created_timestamp'', False), (''ip'', True), (''mac'', True),
      (''modified_timestamp'', False), (''mtu'', True), (''netmask'', True),
      (''network_uuid'', True), (''nic_tag'', True), (''primary'', True),
      (''resolvers'', False), (''state'', False), (''owner_uuid'', False),
      (''vlan_id'', True)]"

definition VM_PAYLOAD :: "(string \<times> bool) list" where
  "VM_PAYLOAD =
     [(''alias'', True), (''archive_on_delete'', True), (''billing_id'', True),
      (''brand'', True), (''cpu_cap'', True), (''cpu_shares'', True), (''cpu_type'', True),
      (''customer_metadata'', True), (''dataset_url'', False),
      (''dataset_url_compression'', False), (''disk_driver'', True), (''disks'', True),
      (''firewall_enabled'', False), (''image'', False), (''image_uuid'', True),
      (''gpus'', True), (''max_lwps'', True), (''max_physical_memory'', True),
      (''max_swap'', True), (''nic_driver'', True), (''nics'', True), (''owner_uuid'', True),
      (''server_uuid'', True), (''quota'', True), (''ram'', True), (''resolvers'', True),
      (''uuid'', True), (''vcpus'', True), (''zfs_io_priority'', False)]"

text \<open>
  The read \<open>MAP_PAYLOAD[key]\<close> on one of these object literals: the listed flag, a member
  inherited from \<open>Object.prototype\<close> (neither \<open>undefined\<close> nor falsy), or \<open>undefined\<close>.
\<close>

datatype listing = Listed bool | Inherited | Unlisted

definition listing_of :: "(string \<times> bool) list \<Rightarrow> string \<Rightarrow> listing" where
  "listing_of MAP_PAYLOAD key =
     (case map_of MAP_PAYLOAD key of
        Some b \<Rightarrow> Listed b
      | None \<Rightarrow> if key \<in> set object_prototype_names then Inherited else Unlisted)"

subsection \<open>Objects built by the code\<close>

text \<open>
  \<open>newThing\<close> and \<open>newPayload\<close> start as \<open>{}\<close> and receive caller-chosen keys, so their
  prototype can change: the pair holds the own properties and the prototype, \<open>None\<close> for
  \<open>Object.prototype\<close>, \<open>Some Null\<close> for no prototype, \<open>Some v\<close> for the object or array \<open>v\<close>
  taken from the request.

  \<open>accessor_reachable\<close>: a read or write of \<open>__proto__\<close> finds the accessor of
  \<open>Object.prototype\<close> and not a data property before it on the chain.
\<close>

type_synonym jsobj = "(string \<times> jsval) list \<times> jsval option"

definition empty_object :: jsobj where
  "empty_object = ([], None)"

definition accessor_reachable :: "jsobj \<Rightarrow> bool" where
  "accessor_reachable ob =
     (\<not> hasOwnProperty (fst ob) ''__proto__'' \<and>
      (case snd ob of
         None \<Rightarrow> True
       | Some (Obj kvs) \<Rightarrow> \<not> hasOwnProperty kvs ''__proto__''
       | Some (Arr xs) \<Rightarrow> True
       | Some v \<Rightarrow> False))"

text \<open>
  The assignment \<open>ob[key] = v\<close>. The setter of \<open>__proto__\<close> re-parents the object when \<open>v\<close>
  is an object, an array or \<open>null\<close> and ignores every other value; any other assignment
  creates or overwrites an own property.
\<close>

definition assign :: "string \<Rightarrow> jsval \<Rightarrow> jsobj \<Rightarrow> jsobj" where
  "assign key v ob =
     (if key = ''__proto__'' \<and> accessor_reachable ob then
        (case v of
           Obj kvs \<Rightarrow> (fst ob, Some v)
         | Arr xs \<Rightarrow> (fst ob, Some v)
         | Null \<Rightarrow> (fst ob, Some Null)
         | _ \<Rightarrow> ob)
      else (put key v (fst ob), snd ob))"

text \<open>
  The read \<open>ob.name\<close> for the names \<open>map_payload\<close> reads (\<open>nics\<close>, \<open>disks\<close>, \<open>brand\<close>,
  \<open>max_locked_memory\<close>, \<open>max_swap\<close>, \<open>zpool\<close>, \<open>uuid\<close>, \<open>zfs_filesystem\<close>,
  \<open>zfs_io_priority\<close>): none of them is a member of \<open>Object.prototype\<close> or of
  \<open>Array.prototype\<close>, so only own properties and the own properties of a prototype taken
  from the request can answer.
\<close>

definition inherited :: "jsval option \<Rightarrow> string \<Rightarrow> jsval" where
  "inherited pr name = (case pr of Some (Obj kvs) \<Rightarrow> js_get kvs name | _ \<Rightarrow> Undefined)"

definition member :: "jsobj \<Rightarrow> string \<Rightarrow> jsval" where
  "member ob name =
     (case map_of (fst ob) name of Some v \<Rightarrow> v | None \<Rightarrow> inherited (snd ob) name)"

subsection \<open>\<open>map_thing\<close>\<close>

text \<open>
  \<open>own_props\<close>: what \<open>Object.keys\<close> and indexing see of a value that passes
  \<open>assert.object\<close> (an object, or an array with its indices as keys); \<open>None\<close> when the
  assertion fails.
\<close>

definition own_props :: "jsval \<Rightarrow> (string \<times> jsval) list option" where
  "own_props v =
     (case v of
        Obj kvs \<Rightarrow> Some kvs
      | Arr xs \<Rightarrow> Some (zip (map show_nat [0..<length xs]) xs)
      | _ \<Rightarrow> None)"

definition props_of :: "jsval \<Rightarrow> (string \<times> jsval) list" where
  "props_of x = (case own_props x of Some kvs \<Rightarrow> kvs | None \<Rightarrow> [])"

definition map_thing_key ::
  "(string \<times> bool) list \<Rightarrow> string \<Rightarrow> nat \<Rightarrow> (string \<times> jsval) list \<Rightarrow> string \<Rightarrow>
   jsobj \<times> string list \<Rightarrow> jsobj \<times> string list" where
  "map_thing_key MAP_PAYLOAD name thingIdx thing key st =
     (case listing_of MAP_PAYLOAD key of
        Unlisted \<Rightarrow> (fst st, snd st @ [name @ ''.'' @ show_nat thingIdx @ ''.'' @ key])
      | Listed False \<Rightarrow> st
      | _ \<Rightarrow> (assign key (js_get thing key) (fst st), snd st))"

fun map_things ::
  "(string \<times> bool) list \<Rightarrow> string \<Rightarrow> nat \<Rightarrow> jsval list \<Rightarrow> string list \<Rightarrow>
   jsobj list \<times> string list" where
  "map_things MAP_PAYLOAD name thingIdx [] ignored = ([], ignored)"
| "map_things MAP_PAYLOAD name thingIdx (x # xs) ignored =
     (let thing = props_of x;
          st = fold (map_thing_key MAP_PAYLOAD name thingIdx thing) (map fst thing)
                 (empty_object, ignored);
          rest = map_things MAP_PAYLOAD name (thingIdx + 1) xs (snd st)
      in (fst st # fst rest, snd rest))"

text \<open>
  \<open>map_thing\<close> returns \<open>newThings\<close> and the extended \<open>opts.ignored\<close>; \<open>None\<close> when
  \<open>assert.arrayOfObject\<close> throws.
\<close>

definition map_thing ::
  "string list \<Rightarrow> (string \<times> bool) list \<Rightarrow> string \<Rightarrow> jsval \<Rightarrow> (jsobj list \<times> string list) option"
  where
  "map_thing ignored MAP_PAYLOAD name things =
     (case things of
        Arr xs \<Rightarrow>
          if list_all (\<lambda>x. own_props x \<noteq> None) xs
          then Some (map_things MAP_PAYLOAD name 0 xs ignored)
          else None
      | _ \<Rightarrow> None)"

subsection \<open>\<open>map_payload\<close>\<close>

text \<open>
  \<open>newPayload\<close>: the own properties other than \<open>nics\<close> and \<open>disks\<close> with the prototype, and
  the two properties \<open>nics\<close> and \<open>disks\<close>, each unset, the list built by \<open>map_thing\<close>, or the
  default \<open>{}\<close>.
\<close>

datatype things = Mapped "jsobj list" | Empty_object

record new_payload =
  props :: jsobj
  nics_prop :: "things option"
  disks_prop :: "things option"

definition newPayload0 :: new_payload where
  "newPayload0 = \<lparr>props = empty_object, nics_prop = None, disks_prop = None\<rparr>"

definition map_payload_key ::
  "(string \<times> jsval) list \<Rightarrow> string \<Rightarrow> new_payload \<times> string list \<Rightarrow>
   (new_payload \<times> string list) option" where
  "map_payload_key payload key st =
     (if key = ''nics'' then
        (case map_thing (snd st) NIC_PAYLOAD ''nic'' (js_get payload key) of
           None \<Rightarrow> None
         | Some r \<Rightarrow> Some ((fst st)\<lparr>nics_prop := Some (Mapped (fst r))\<rparr>, snd r))
      else if key = ''disks'' then
        (case map_thing (snd st) DISK_PAYLOAD ''disk'' (js_get payload key) of
           None \<Rightarrow> None
         | Some r \<Rightarrow> Some ((fst st)\<lparr>disks_prop := Some (Mapped (fst r))\<rparr>, snd r))
      else
        (case listing_of VM_PAYLOAD key of
           Unlisted \<Rightarrow> Some (fst st, snd st @ [key])
         | Listed False \<Rightarrow> Some st
         | _ \<Rightarrow>
             Some ((fst st)\<lparr>props := assign key (js_get payload key) (props (fst st))\<rparr>,
                   snd st)))"

fun map_payload_keys ::
  "(string \<times> jsval) list \<Rightarrow> string list \<Rightarrow> new_payload \<times> string list \<Rightarrow>
   (new_payload \<times> string list) option" where
  "map_payload_keys payload [] st = Some st"
| "map_payload_keys payload (key # keys) st =
     (case map_payload_key payload key st of
        None \<Rightarrow> None
      | Some st' \<Rightarrow> map_payload_keys payload keys st')"

text \<open>
  The part of \<open>map_payload\<close> after the loop, "fill in things we want default values for".
  The two concatenations convert \<open>zpool\<close> and \<open>uuid\<close> to strings and can throw.
\<close>

definition fill_defaults :: "new_payload \<Rightarrow> new_payload option" where
  "fill_defaults np0 =
     (let np1 = (if nics_prop np0 = None \<and> inherited (snd (props np0)) ''nics'' = Undefined
                 then np0\<lparr>nics_prop := Some Empty_object\<rparr> else np0);
          np2 = (if member (props np1) ''brand'' \<in> {Str ''bhyve'', Str ''kvm''}
                 then (if disks_prop np1 = None \<and>
                          inherited (snd (props np1)) ''disks'' = Undefined
                       then np1\<lparr>disks_prop := Some Empty_object\<rparr> else np1)
                 else np1);
          p3 = assign ''limit_priv'' (Str ''default'')
                 (assign ''datasets'' (Arr [])
                   (assign ''autoboot'' (Bool True) (props np2)));
          p4 = (if member p3 ''max_locked_memory'' = Undefined \<and>
                   member p3 ''max_swap'' \<noteq> Undefined
                then assign ''max_locked_memory'' (member p3 ''max_swap'') p3 else p3);
          p5 = (if member p4 ''zpool'' = Undefined then assign ''zpool'' (Str ''zones'') p4
                else p4)
      in case js_to_string (member p5 ''zpool'') of
           None \<Rightarrow> None
         | Some zpool \<Rightarrow>
             (case js_to_string (member p5 ''uuid'') of
                None \<Rightarrow> None
              | Some uuid_str \<Rightarrow>
                  let p6 = assign ''zfs_filesystem'' (Str (zpool @ ''/'' @ uuid_str)) p5 in
                  (case js_to_string (member p6 ''zfs_filesystem'') of
                     None \<Rightarrow> None
                   | Some fs \<Rightarrow>
                       let p7 = assign ''zonepath'' (Str (''/'' @ fs)) p6;
                           p8 = (if member p7 ''zfs_io_priority'' = Undefined
                                 then assign ''zfs_io_priority'' (Num 100) p7 else p7)
                       in Some (np2\<lparr>props := p8\<rparr>))))"

text \<open>
  \<open>map_payload\<close> returns \<open>newPayload\<close> and \<open>opts.ignored\<close>, the list it reports with
  \<open>opts.log.warn\<close> when it is not empty; \<open>None\<close> when an assertion or a conversion throws.
\<close>

definition map_payload :: "jsval \<Rightarrow> (new_payload \<times> string list) option" where
  "map_payload payload =
     (case own_props payload of
        None \<Rightarrow> None
      | Some kvs \<Rightarrow>
          (case map_payload_keys kvs (map fst kvs) (newPayload0, []) of
             None \<Rightarrow> None
           | Some st \<Rightarrow>
               (case fill_defaults (fst st) of
                  None \<Rightarrow> None
                | Some newPayload \<Rightarrow> Some (newPayload, snd st))))"

definition warned :: "string list \<Rightarrow> bool" where
  "warned ignored = (0 < length ignored)"


text \<open>
  Vocabulary for stating what \<open>map_payload\<close> builds. \<open>whitelisted M thing\<close> keeps the
  properties of \<open>thing\<close> that \<open>M\<close> lists as \<open>true\<close>; \<open>plain_keys\<close> holds of a property list
  none of whose keys names a member of \<open>Object.prototype\<close>; \<open>things_of kvs k\<close> are the
  elements of the array under \<open>k\<close>; \<open>nested_entry\<close> recognises the entries that \<open>map_thing\<close>
  adds to \<open>opts.ignored\<close>; \<open>expected_props kvs us\<close> is the whitelisted part of \<open>kvs\<close>
  without \<open>nics\<close> and \<open>disks\<close>, overridden by the fixed values, where \<open>us\<close> is the
  \<open>uuid\<close> as a string.
\<close>

definition whitelisted ::
  "(string \<times> bool) list \<Rightarrow> (string \<times> jsval) list \<Rightarrow> string \<Rightarrow> jsval option" where
  "whitelisted MAP_PAYLOAD thing =
     (\<lambda>k. if map_of MAP_PAYLOAD k = Some True then map_of thing k else None)"

definition plain_keys :: "(string \<times> jsval) list \<Rightarrow> bool" where
  "plain_keys kvs = (set (map fst kvs) \<inter> set object_prototype_names = {})"

definition things_of :: "(string \<times> jsval) list \<Rightarrow> string \<Rightarrow> jsval list" where
  "things_of kvs k = (case js_get kvs k of Arr xs \<Rightarrow> xs | _ \<Rightarrow> [])"

definition nics_from :: "(string \<times> bool) list \<Rightarrow> string \<Rightarrow> jsval \<Rightarrow> things option" where
  "nics_from M name v =
     (case v of Arr xs \<Rightarrow> Some (Mapped (fst (map_things M name 0 xs []))) | _ \<Rightarrow> None)"

definition nested_entry :: "string \<Rightarrow> bool" where
  "nested_entry s = (\<exists>rest. s = ''nic.'' @ rest \<or> s = ''disk.'' @ rest)"

definition expected_props :: "(string \<times> jsval) list \<Rightarrow> string \<Rightarrow> string \<Rightarrow> jsval option" where
  "expected_props kvs us =
     (\<lambda>k. if k \<noteq> ''nics'' \<and> k \<noteq> ''disks'' then whitelisted VM_PAYLOAD kvs k else None)
       (''autoboot'' \<mapsto> Bool True, ''datasets'' \<mapsto> Arr [], ''limit_priv'' \<mapsto> Str ''default'',
        ''zpool'' \<mapsto> Str ''zones'', ''zfs_filesystem'' \<mapsto> Str (''zones/'' @ us),
        ''zonepath'' \<mapsto> Str (''/zones/'' @ us), ''zfs_io_priority'' \<mapsto> Num 100)
     ++ (if js_get kvs ''max_swap'' \<noteq> Undefined
         then [''max_locked_memory'' \<mapsto> js_get kvs ''max_swap''] else Map.empty)"

section \<open>The task runtime\<close>

text \<open>
  Modelled from the spec: the task runtime of \<open>lib/task_agent/task.js\<close> (\<open>Task.createTask\<close>,
  \<open>createSteps\<close>, \<open>setStart\<close> and the instance methods \<open>progress\<close>, \<open>finish\<close>, \<open>fatal\<close>) is
  not among the sources. By the spec a task instance goes \<open>PENDING \<rightarrow> RUNNING\<close> when it is
  started, \<open>RUNNING \<rightarrow> COMPLETE\<close> on \<open>finish(result)\<close> and \<open>RUNNING \<rightarrow> FAILED\<close> on
  \<open>fatal(message, detail, extra)\<close>; both are terminal, and once one of them has been called
  further lifecycle calls are no-ops; \<open>progress(percent)\<close> records a checkpoint; a declared
  step sets the progress to its absolute checkpoint when it succeeds.
\<close>

datatype task_state = PENDING | RUNNING | COMPLETE | FAILED

record task_run =
  state :: task_state
  reported :: "int list"
  steps_completed :: "string list"
  finish_result :: "jsval option"
  fatal_error :: "(jsval \<times> jsval \<times> jsval) option"

definition task_started :: task_run where
  "task_started = \<lparr>state = RUNNING, reported = [], steps_completed = [], finish_result = None,
                    fatal_error = None\<rparr>"

definition task_progress :: "int \<Rightarrow> task_run \<Rightarrow> task_run" where
  "task_progress percent t =
     (if state t = COMPLETE \<or> state t = FAILED then t
      else t\<lparr>reported := reported t @ [percent]\<rparr>)"

definition task_finish :: "jsval \<Rightarrow> task_run \<Rightarrow> task_run" where
  "task_finish result t =
     (if state t = COMPLETE \<or> state t = FAILED then t
      else t\<lparr>state := COMPLETE, finish_result := Some result\<rparr>)"

definition task_fatal :: "jsval \<Rightarrow> jsval \<Rightarrow> jsval \<Rightarrow> task_run \<Rightarrow> task_run" where
  "task_fatal message detail extra t =
     (if state t = COMPLETE \<or> state t = FAILED then t
      else t\<lparr>state := FAILED, fatal_error := Some (message, detail, extra)\<rparr>)"

text \<open>
  The functions of a \<open>vasync\<close> pipeline or waterfall run in order. Each one ends by calling
  its callback without an error (\<open>Continue\<close>) or with a truthy one (\<open>Abort\<close>, which skips the
  remaining functions and reaches the final callback), by returning without ever calling
  it (\<open>Stopped\<close>: the final callback is never reached), or by throwing (\<open>Thrown\<close>).
\<close>

datatype 's step_result = Continue 's | Abort jsval 's | Stopped 's | Thrown 's

fun state_of :: "'s step_result \<Rightarrow> 's" where
  "state_of (Continue s) = s"
| "state_of (Abort err s) = s"
| "state_of (Stopped s) = s"
| "state_of (Thrown s) = s"

fun pipeline :: "('s \<Rightarrow> 's step_result) list \<Rightarrow> 's \<Rightarrow> 's step_result" where
  "pipeline [] s = Continue s"
| "pipeline (f # fs) s = (case f s of Continue s' \<Rightarrow> pipeline fs s' | r \<Rightarrow> r)"

text \<open>
  Property reads \<open>v.name\<close> for names that no built-in prototype answers: an own property of
  an object, \<open>undefined\<close> otherwise; on \<open>null\<close> and \<open>undefined\<close> the read throws, which
  \<open>nullish\<close> tests. An \<open>Error\<close> object is an object with the own property \<open>message\<close>.
\<close>

definition js_prop :: "jsval \<Rightarrow> string \<Rightarrow> jsval" where
  "js_prop v name = (case v of Obj kvs \<Rightarrow> js_get kvs name | _ \<Rightarrow> Undefined)"

definition nullish :: "jsval \<Rightarrow> bool" where
  "nullish v = (v = Undefined \<or> v = Null)"

definition Error :: "string \<Rightarrow> jsval" where
  "Error message = Obj [(''message'', Str message)]"

text \<open>
  \<open>assert.uuid\<close>: a string of the shape 8-4-4-4-12 in hexadecimal digits of either case.
\<close>

definition hex_digits :: "string \<Rightarrow> bool" where
  "hex_digits s = list_all (\<lambda>c. c \<in> set ''0123456789abcdefABCDEF'') s"

definition assert_uuid :: "jsval \<Rightarrow> bool" where
  "assert_uuid v =
     (case v of
        Str s \<Rightarrow>
          length s = 36 \<and>
          hex_digits (take 8 s) \<and> take 1 (drop 8 s) = ''-'' \<and>
          hex_digits (take 4 (drop 9 s)) \<and> take 1 (drop 13 s) = ''-'' \<and>
          hex_digits (take 4 (drop 14 s)) \<and> take 1 (drop 18 s) = ''-'' \<and>
          hex_digits (take 4 (drop 19 s)) \<and> take 1 (drop 23 s) = ''-'' \<and>
          hex_digits (drop 24 s)
      | _ \<Rightarrow> False)"


section \<open>The task \<open>machine_create\<close>\<close>

text \<open>
  The task object: \<open>self.sysinfo\<close> and \<open>self.req\<close>, the context the dispatcher built.

  The collaborators act on the compute node, whose condition is a value of an arbitrary
  type \<open>'w\<close> that the run threads through its calls in the order the code makes them.
  \<open>vmadm.exists\<close> and \<open>vmadm.load\<close> are queries: they get the sysinfo and the uuid of
  their options and answer with an error or a result. \<open>vmadm.create\<close> gets the payload
  with the \<open>req_id\<close> and the sysinfo that \<open>create_machine\<close> adds to it, and answers with
  an error or nothing. \<open>common.provisionInProgressFile\<close> gets the uuid and passes the name
  of the guard file to its callback (\<open>None\<close> for \<open>undefined\<close>); \<open>fs.unlink\<close> gets that name
  and answers with an error or nothing. These three leave the node in a new condition.
  The code tests an error for truthiness, so a falsy error counts as none.
\<close>

record machine_create_task =
  self_sysinfo :: jsval
  self_req :: task_context

record 'w mc_env =
  vmadm_exists :: "jsval \<Rightarrow> jsval \<Rightarrow> 'w \<Rightarrow> jsval + bool"
  provisionInProgressFile :: "jsval \<Rightarrow> 'w \<Rightarrow> string option \<times> 'w"
  vmadm_create :: "new_payload \<Rightarrow> string \<Rightarrow> jsval \<Rightarrow> 'w \<Rightarrow> jsval option \<times> 'w"
  fs_unlink :: "string \<Rightarrow> 'w \<Rightarrow> jsval option \<times> 'w"
  vmadm_load :: "jsval \<Rightarrow> jsval \<Rightarrow> 'w \<Rightarrow> jsval + jsval"

text \<open>
  The state of a run: the task instance, the condition of the node, the shared pipeline
  argument (\<open>arg.dataset_exists\<close>, \<open>arg.payload\<close>), the local \<open>creationGuardFilename\<close>, the
  messages given to \<open>self.log.error\<close>, and whether an exception escaped.
\<close>

record 'w mc_state =
  run :: task_run
  node :: 'w
  arg_dataset_exists :: bool
  arg_payload :: "new_payload option"
  creationGuardFilename :: "string option"
  logged_errors :: "jsval list"
  uncaught :: bool

definition mc_state0 :: "'w \<Rightarrow> 'w mc_state" where
  "mc_state0 w = \<lparr>run = task_started, node = w, arg_dataset_exists = False, arg_payload = None,
                   creationGuardFilename = None, logged_errors = [], uncaught = False\<rparr>"

text \<open>The table given to \<open>createSteps\<close>: step names with their \<open>progress\<close>, in order.\<close>

definition machine_create_steps :: "(string \<times> int) list" where
  "machine_create_steps =
     [(''pre_check'', 20), (''ensure_dataset_present'', 30), (''fetch_dataset'', 50),
      (''build_payload'', 60), (''create_machine'', 100)]"

text \<open>
  Modelled from the spec: the method that \<open>createSteps\<close> installs for a declared step runs
  the step function and, when that succeeds, records the step and sets the progress to the
  step's checkpoint.
\<close>

definition declared_step ::
  "string \<Rightarrow> ('w mc_state \<Rightarrow> 'w mc_state step_result) \<Rightarrow> 'w mc_state \<Rightarrow>
   'w mc_state step_result" where
  "declared_step name fn s =
     (case fn s of
        Continue s' \<Rightarrow>
          (case map_of machine_create_steps name of
             Some percent \<Rightarrow>
               Continue (s'\<lparr>run := task_progress percent
                 ((run s')\<lparr>steps_completed := steps_completed (run s') @ [name]\<rparr>)\<rparr>)
           | None \<Rightarrow> Continue s')
      | r \<Rightarrow> r)"

definition pre_check ::
  "'w mc_env \<Rightarrow> machine_create_task \<Rightarrow> 'w mc_state \<Rightarrow> 'w mc_state step_result" where
  "pre_check env self s =
     (if nullish (ctx_params (self_req self)) \<or>
         \<not> assert_uuid (js_prop (ctx_params (self_req self)) ''uuid'')
      then Thrown s
      else if nullish (ctx_sysinfo (self_req self)) \<or>
              \<not> assert_uuid (js_prop (ctx_sysinfo (self_req self)) ''UUID'')
      then Thrown s
      else
        (case vmadm_exists env (ctx_sysinfo (self_req self))
                (js_prop (ctx_params (self_req self)) ''uuid'') (node s) of
           Inl err \<Rightarrow> if truthy err then Abort err s else Continue s
         | Inr exists \<Rightarrow>
             if exists then
               (case js_to_string (js_prop (ctx_params (self_req self)) ''uuid'') of
                  None \<Rightarrow> Thrown s
                | Some u \<Rightarrow> Abort (Error (''Machine '' @ u @ '' exists.'')) s)
             else Continue s))"

definition ensure_dataset_present :: "'w mc_state \<Rightarrow> 'w mc_state step_result" where
  "ensure_dataset_present s = Continue (s\<lparr>arg_dataset_exists := True\<rparr>)"

definition fetch_dataset :: "'w mc_state \<Rightarrow> 'w mc_state step_result" where
  "fetch_dataset s = (if arg_dataset_exists s then Continue s else Continue s)"

definition build_payload ::
  "machine_create_task \<Rightarrow> 'w mc_state \<Rightarrow> 'w mc_state step_result" where
  "build_payload self s =
     (case map_payload (ctx_params (self_req self)) of
        None \<Rightarrow> Thrown s
      | Some r \<Rightarrow> Continue (s\<lparr>arg_payload := Some (fst r)\<rparr>))"

definition create_machine ::
  "'w mc_env \<Rightarrow> machine_create_task \<Rightarrow> 'w mc_state \<Rightarrow> 'w mc_state step_result" where
  "create_machine env self s =
     (case arg_payload s of
        None \<Rightarrow> Thrown s
      | Some p \<Rightarrow>
          (case vmadm_create env p (ctx_req_id (self_req self)) (self_sysinfo self) (node s) of
             (Some err, w) \<Rightarrow>
               if truthy err then Abort err (s\<lparr>node := w\<rparr>) else Continue (s\<lparr>node := w\<rparr>)
           | (None, w) \<Rightarrow> Continue (s\<lparr>node := w\<rparr>)))"

text \<open>The functions of the pipeline in \<open>start\<close> that are not declared steps.\<close>

definition doPrecheck ::
  "'w mc_env \<Rightarrow> machine_create_task \<Rightarrow> 'w mc_state \<Rightarrow> 'w mc_state step_result" where
  "doPrecheck env self s =
     (case declared_step ''pre_check'' (pre_check env self) s of
        Abort err s' \<Rightarrow>
          Stopped (s'\<lparr>run := task_fatal (js_prop err ''message'') Undefined Undefined (run s')\<rparr>)
      | r \<Rightarrow> r)"

definition createProvisionLockFile ::
  "'w mc_env \<Rightarrow> machine_create_task \<Rightarrow> 'w mc_state \<Rightarrow> 'w mc_state step_result" where
  "createProvisionLockFile env self s =
     (if nullish (ctx_params (self_req self)) then Thrown s
      else
        (case provisionInProgressFile env (js_prop (ctx_params (self_req self)) ''uuid'')
                (node s) of
           (filename, w) \<Rightarrow> Continue (s\<lparr>creationGuardFilename := filename, node := w\<rparr>)))"

definition deleteProvisionLockFile :: "'w mc_env \<Rightarrow> 'w mc_state \<Rightarrow> 'w mc_state step_result" where
  "deleteProvisionLockFile env s =
     (case creationGuardFilename s of
        None \<Rightarrow> Thrown s
      | Some filename \<Rightarrow>
          (case fs_unlink env filename (node s) of
             (Some err, w) \<Rightarrow>
               if truthy err
               then Continue (s\<lparr>logged_errors := logged_errors s @ [js_prop err ''message''],
                               node := w\<rparr>)
               else Continue (s\<lparr>node := w\<rparr>)
           | (None, w) \<Rightarrow> Continue (s\<lparr>node := w\<rparr>)))"

definition afterPipeline ::
  "'w mc_env \<Rightarrow> machine_create_task \<Rightarrow> jsval option \<Rightarrow> 'w mc_state \<Rightarrow> 'w mc_state" where
  "afterPipeline env self pipelineErr s =
     (if nullish (ctx_params (self_req self)) then s\<lparr>uncaught := True\<rparr>
      else
        let loaded = vmadm_load env (self_sysinfo self)
                       (js_prop (ctx_params (self_req self)) ''uuid'') (node s)
        in case pipelineErr of
             Some err \<Rightarrow>
               (case loaded of
                  Inr machine \<Rightarrow>
                    if truthy machine
                    then s\<lparr>run := task_fatal (js_prop err ''message'') Null
                                   (Obj [(''vm'', machine)]) (run s)\<rparr>
                    else s\<lparr>run := task_fatal (js_prop err ''message'') Undefined Undefined
                                   (run s)\<rparr>
                | Inl loadError \<Rightarrow>
                    s\<lparr>run := task_fatal (js_prop err ''message'') Undefined Undefined (run s)\<rparr>)
           | None \<Rightarrow>
               (case loaded of
                  Inl loadError \<Rightarrow>
                    if truthy loadError
                    then s\<lparr>logged_errors := logged_errors s @ [js_prop loadError ''message''],
                           run := task_finish Undefined (run s)\<rparr>
                    else s\<lparr>run := task_finish (Obj [(''vm'', Undefined)]) (run s)\<rparr>
                | Inr machine \<Rightarrow> s\<lparr>run := task_finish (Obj [(''vm'', machine)]) (run s)\<rparr>))"

definition machine_create_start ::
  "'w mc_env \<Rightarrow> machine_create_task \<Rightarrow> 'w \<Rightarrow> 'w mc_state" where
  "machine_create_start env self w =
     (if own_props (self_sysinfo self) = None \<or>
         \<not> assert_uuid (js_prop (self_sysinfo self) ''UUID'')
      then (mc_state0 w)\<lparr>uncaught := True\<rparr>
      else
        (case pipeline
                [doPrecheck env self,
                 createProvisionLockFile env self,
                 declared_step ''ensure_dataset_present'' ensure_dataset_present,
                 declared_step ''fetch_dataset'' fetch_dataset,
                 declared_step ''build_payload'' (build_payload self),
                 declared_step ''create_machine'' (create_machine env self),
                 deleteProvisionLockFile env]
                (mc_state0 w) of
           Continue s \<Rightarrow> afterPipeline env self None s
         | Abort err s \<Rightarrow> afterPipeline env self (Some err) s
         | Stopped s \<Rightarrow> s
         | Thrown s \<Rightarrow> s\<lparr>uncaught := True\<rparr>))"


section \<open>The recovery-configuration task\<close>

text \<open>
  The second task of the sources: stage or activate a recovery configuration. Its \<open>start\<close>
  is a waterfall of eight functions that call \<open>self.progress\<close> directly.

  The collaborators answer with an error or a result: \<open>common.getSdcConfig\<close>,
  \<open>dns.resolve\<close>, \<open>shared.writeSysinfo\<close>, the \<open>put\<close> of the JSON client. The two helpers
  of the file are kept abstract, since they rest on \<open>crypto\<close> and \<open>Buffer\<close>: each returns a
  value or throws (\<open>None\<close>). \<open>uuid_of\<close> is \<open>repeatableUUIDFromHexString\<close>, \<open>digest_hex x\<close> is
  \<open>sha512str(x).toString("hex")\<close>, \<open>digest_uuid x\<close> is
  \<open>repeatableUUIDFromHexString(sha512str(x))\<close>. Values that flow only into log records and
  into the arguments of the collaborators are not tracked.
\<close>

record recovery_config_task =
  rc_sysinfo :: jsval
  rc_req :: task_context

record rc_env =
  getSdcConfig :: "jsval + jsval"
  dns_resolve :: "jsval + jsval list"
  writeSysinfo :: "jsval option"
  client_put :: "jsval option"
  uuid_of :: "jsval \<Rightarrow> jsval option"
  digest_hex :: "jsval \<Rightarrow> jsval option"
  digest_uuid :: "jsval \<Rightarrow> jsval option"

text \<open>
  The locals of \<open>start\<close>. \<open>zpoolRecovery\<close> is held as the list of its own enumerable
  properties; \<open>zr_writable\<close> is false when it is a truthy primitive, on which property
  assignments have no effect.
\<close>

record rc_state =
  rc_run :: task_run
  kbmapiaddr :: jsval
  zpoolRecovery :: "(string \<times> jsval) list"
  zr_writable :: bool
  zpool :: jsval
  server_uuid :: jsval
  templateFile_set :: bool
  rc_uncaught :: bool

definition rc_state0 :: rc_state where
  "rc_state0 = \<lparr>rc_run = task_started, kbmapiaddr = Undefined, zpoolRecovery = [],
                 zr_writable = True, zpool = Undefined, server_uuid = Undefined,
                 templateFile_set = False, rc_uncaught = False\<rparr>"

definition rc_progress :: "int \<Rightarrow> rc_state \<Rightarrow> rc_state" where
  "rc_progress percent s = s\<lparr>rc_run := task_progress percent (rc_run s)\<rparr>"

definition param :: "recovery_config_task \<Rightarrow> string \<Rightarrow> jsval" where
  "param self name = js_prop (ctx_params (rc_req self)) name"

definition bailIfMissingPreconditions ::
  "recovery_config_task \<Rightarrow> rc_state \<Rightarrow> rc_state step_result" where
  "bailIfMissingPreconditions self s =
     (if \<not> truthy (param self ''action'') \<or> \<not> truthy (param self ''pivtoken'') \<or>
         \<not> truthy (param self ''recovery_uuid'')
      then Abort (Error ''Missing required request parameters'') s
      else if param self ''action'' \<noteq> Str ''activate'' \<and> param self ''action'' \<noteq> Str ''stage''
      then Abort (Error ''Invalid value for action parameter'') s
      else if param self ''action'' = Str ''stage'' \<and> \<not> truthy (param self ''template'')
      then Abort (Error ''Missing template request parameter'') s
      else Continue s)"

definition retrieveKbmapiAddresses :: "rc_env \<Rightarrow> rc_state \<Rightarrow> rc_state step_result" where
  "retrieveKbmapiAddresses env s =
     (case getSdcConfig env of
        Inl error \<Rightarrow> if truthy error then Abort error s else Thrown s
      | Inr cfg \<Rightarrow>
          if nullish cfg then Thrown s
          else if js_to_string (js_prop cfg ''datacenter_name'') = None \<or>
                  js_to_string (js_prop cfg ''dns_domain'') = None
          then Thrown s
          else
            (case dns_resolve env of
               Inl dnserror \<Rightarrow> if truthy dnserror then Abort dnserror s else Thrown s
             | Inr addrs \<Rightarrow>
                 (case addrs of
                    [] \<Rightarrow> Abort (Str ''No KBMAPI addresses found'') s
                  | addr # others \<Rightarrow> Continue (rc_progress 10 (s\<lparr>kbmapiaddr := addr\<rparr>)))))"

definition getSysinfo :: "recovery_config_task \<Rightarrow> rc_state \<Rightarrow> rc_state step_result" where
  "getSysinfo self s =
     (let obj = rc_sysinfo self in
      if \<not> truthy (js_prop obj ''Zpool Encrypted'') then
        Abort (Error (''Recovery configuration can be staged or '' @
                      ''activated only on servers with encrypted zpools'')) s
      else
        let zr = js_prop obj ''Zpool Recovery'' in
        Continue (rc_progress 25
          (s\<lparr>zpoolRecovery :=
                (if truthy zr
                 then (case zr of
                         Str str \<Rightarrow> zip (map show_nat [0..<length str]) (map (\<lambda>c. Str [c]) str)
                       | _ \<Rightarrow> props_of zr)
                 else []),
              zr_writable := (\<not> truthy zr \<or> own_props zr \<noteq> None),
              zpool := js_prop obj ''Zpool'',
              server_uuid := js_prop obj ''UUID''\<rparr>)))"

definition onlyStagedConfigCanBeActivated ::
  "rc_env \<Rightarrow> recovery_config_task \<Rightarrow> rc_state \<Rightarrow> rc_state step_result" where
  "onlyStagedConfigCanBeActivated env self s =
     (if param self ''action'' = Str ''activate'' then
        (case uuid_of env (js_get (zpoolRecovery s) ''staged'') of
           None \<Rightarrow> Thrown s
         | Some u \<Rightarrow>
             if u \<noteq> param self ''recovery_uuid''
             then Abort (Error (''Only the staged recovery configuration '' @
                                ''can be activated'')) s
             else Continue s)
      else Continue s)"

definition saveTemplate :: "recovery_config_task \<Rightarrow> rc_state \<Rightarrow> rc_state step_result" where
  "saveTemplate self s =
     (if param self ''action'' = Str ''activate'' then Continue s
      else Continue (rc_progress 50 (s\<lparr>templateFile_set := True\<rparr>)))"

definition join_element :: "jsval \<Rightarrow> string option" where
  "join_element v = (if nullish v then Some [] else js_to_string v)"

definition doAction :: "rc_env \<Rightarrow> recovery_config_task \<Rightarrow> rc_state \<Rightarrow> rc_state step_result" where
  "doAction env self s =
     (if param self ''action'' = Str ''activate'' then
        Continue (rc_progress 65
          (if zr_writable s
           then s\<lparr>zpoolRecovery :=
                    filter (\<lambda>kv. fst kv \<noteq> ''staged'')
                      (put ''active'' (js_get (zpoolRecovery s) ''staged'') (zpoolRecovery s))\<rparr>
           else s))
      else if join_element (param self ''token'') = None \<or> join_element (zpool s) = None
      then Thrown s
      else
        (case digest_hex env (param self ''template'') of
           None \<Rightarrow> Thrown s
         | Some hex \<Rightarrow>
             Continue (rc_progress 65
               (if zr_writable s
                then s\<lparr>zpoolRecovery := put ''staged'' hex (zpoolRecovery s)\<rparr>
                else s))))"

definition sysinfoUpdate :: "rc_env \<Rightarrow> rc_state \<Rightarrow> rc_state step_result" where
  "sysinfoUpdate env s =
     (case writeSysinfo env of
        Some err \<Rightarrow> if truthy err then Abort err s else Continue (rc_progress 75 s)
      | None \<Rightarrow> Continue (rc_progress 75 s))"

definition postUpdatesToKbmapi ::
  "rc_env \<Rightarrow> recovery_config_task \<Rightarrow> rc_state \<Rightarrow> rc_state step_result" where
  "postUpdatesToKbmapi env self s =
     (if js_to_string (kbmapiaddr s) = None then Thrown s
      else if \<not> list_all (\<lambda>kv. uuid_of env (snd kv) \<noteq> None) (zpoolRecovery s) then Thrown s
      else if truthy (param self ''token'') \<and> digest_uuid env (param self ''token'') = None
      then Thrown s
      else if js_to_string (param self ''pivtoken'') = None then Thrown s
      else
        (case client_put env of
           Some err \<Rightarrow>
             if truthy err then Abort err (rc_progress 100 s)
             else Continue (rc_progress 100 s)
         | None \<Rightarrow> Continue (rc_progress 100 s)))"

definition recoveryConfigTaskCb :: "jsval option \<Rightarrow> rc_state \<Rightarrow> rc_state" where
  "recoveryConfigTaskCb err s =
     (case err of
        Some e \<Rightarrow>
          (case js_to_string (js_prop e ''message'') of
             None \<Rightarrow> s\<lparr>rc_uncaught := True\<rparr>
           | Some m \<Rightarrow>
               s\<lparr>rc_run := task_fatal (Str (''Recovery Configuration error: '' @ m))
                              Undefined Undefined (rc_run s)\<rparr>)
      | None \<Rightarrow> s\<lparr>rc_run := task_finish Undefined (rc_run s)\<rparr>)"

definition recovery_config_start :: "rc_env \<Rightarrow> recovery_config_task \<Rightarrow> rc_state" where
  "recovery_config_start env self =
     (if own_props (rc_sysinfo self) = None \<or>
         \<not> assert_uuid (js_prop (rc_sysinfo self) ''UUID'')
      then rc_state0\<lparr>rc_uncaught := True\<rparr>
      else if nullish (ctx_params (rc_req self)) then rc_state0\<lparr>rc_uncaught := True\<rparr>
      else
        (case pipeline
                [bailIfMissingPreconditions self,
                 retrieveKbmapiAddresses env,
                 getSysinfo self,
                 onlyStagedConfigCanBeActivated env self,
                 saveTemplate self,
                 doAction env self,
                 sysinfoUpdate env,
                 postUpdatesToKbmapi env self]
                rc_state0 of
           Continue s \<Rightarrow> recoveryConfigTaskCb None s
         | Abort err s \<Rightarrow> recoveryConfigTaskCb (Some err) s
         | Stopped s \<Rightarrow> s
         | Thrown s \<Rightarrow> s\<lparr>rc_uncaught := True\<rparr>))"

text \<open>The tasks of the sources, each with the setting of one run, and what a run reports.\<close>

datatype 'w task_instance =
    Machine_create "'w mc_env" machine_create_task 'w
  | Recovery_config rc_env recovery_config_task

fun progress_reported :: "'w task_instance \<Rightarrow> int list" where
  "progress_reported (Machine_create env self w) =
     reported (run (machine_create_start env self w))"
| "progress_reported (Recovery_config env self) =
     reported (rc_run (recovery_config_start env self))"

definition bounded_sorted :: "int \<Rightarrow> int list \<Rightarrow> bool" where
  "bounded_sorted c vs = (sorted vs \<and> (\<forall>v\<in>set vs. 0 \<le> v \<and> v \<le> c))"

section \<open>Properties of the dispatcher\<close>

subsection \<open>The completion gate\<close>

lemma cbcount_deliver: "cbcount (deliver s g) = cbcount g + (if is_ack s then 1 else 0)"
  by (cases s) (simp_all add: finish_def progress_def event_def fcb_def Let_def)

lemma error_var_deliver: "error_var (deliver s g) = record_error s (error_var g)"
  by (cases s) (simp_all add: finish_def progress_def event_def fcb_def Let_def)

lemma value_var_deliver: "value_var (deliver s g) = record_value s (value_var g)"
  by (cases s) (simp_all add: finish_def progress_def event_def fcb_def Let_def)

lemma record_error_ack: "is_ack s \<Longrightarrow> record_error s e = e"
  by (cases s) simp_all

lemma sent_deliver:
  "sent (deliver s g) =
     (if is_ack s \<and> cbcount g = 1
      then sent g @ [response_for (error_var g) (record_value s (value_var g))]
      else sent g)"
  by (cases s) (simp_all add: finish_def progress_def event_def fcb_def Let_def response_for_def)

lemma cbcount_run: "cbcount (run_signals sigs g) = cbcount g + acks sigs"
  unfolding run_signals_def acks_def
  by (induction sigs arbitrary: g) (simp_all add: cbcount_deliver)

lemma sent_run_closed: "2 \<le> cbcount g \<Longrightarrow> sent (run_signals sigs g) = sent g"
  unfolding run_signals_def
proof (induction sigs arbitrary: g)
  case Nil
  show ?case by simp
next
  case (Cons s sigs)
  have "2 \<le> cbcount (deliver s g)" using Cons.prems by (simp add: cbcount_deliver)
  then have "sent (fold deliver sigs (deliver s g)) = sent (deliver s g)" by (rule Cons.IH)
  then show ?case using Cons.prems by (simp add: sent_deliver)
qed

lemma sent_run_few:
  "cbcount g + acks sigs < 2 \<Longrightarrow> sent (run_signals sigs g) = sent g"
  unfolding run_signals_def acks_def
proof (induction sigs arbitrary: g)
  case Nil
  show ?case by simp
next
  case (Cons s sigs)
  have "cbcount (deliver s g) + length (filter is_ack sigs) < 2"
    using Cons.prems by (simp add: cbcount_deliver split: if_splits)
  then have "sent (fold deliver sigs (deliver s g)) = sent (deliver s g)" by (rule Cons.IH)
  moreover have "sent (deliver s g) = sent g"
    using Cons.prems by (simp add: sent_deliver split: if_splits)
  ultimately show ?case by simp
qed

lemma sent_run_enough:
  "cbcount g < 2 \<Longrightarrow> 2 \<le> cbcount g + acks sigs \<Longrightarrow>
   sent (run_signals sigs g) =
     sent g @ [response_for (fold record_error (upto_ack (2 - cbcount g) sigs) (error_var g))
                            (fold record_value (upto_ack (2 - cbcount g) sigs) (value_var g))]"
proof (induction sigs arbitrary: g)
  case Nil
  then show ?case by (simp add: acks_def)
next
  case (Cons s sigs)
  have run: "run_signals (s # sigs) g = run_signals sigs (deliver s g)"
    by (simp add: run_signals_def)
  show ?case
  proof (cases "is_ack s")
    case False
    have c: "cbcount (deliver s g) = cbcount g" using False by (simp add: cbcount_deliver)
    have "sent (run_signals sigs (deliver s g)) =
          sent (deliver s g) @
            [response_for (fold record_error (upto_ack (2 - cbcount (deliver s g)) sigs) (error_var (deliver s g)))
                          (fold record_value (upto_ack (2 - cbcount (deliver s g)) sigs) (value_var (deliver s g)))]"
      using Cons.prems False by (intro Cons.IH) (simp_all add: c acks_def)
    then show ?thesis
      using False by (simp add: run c sent_deliver error_var_deliver value_var_deliver)
  next
    case True
    show ?thesis
    proof (cases "cbcount g = 1")
      case True
      have "2 \<le> cbcount (deliver s g)" using True \<open>is_ack s\<close> by (simp add: cbcount_deliver)
      then have "sent (run_signals sigs (deliver s g)) = sent (deliver s g)"
        by (rule sent_run_closed)
      then show ?thesis
        using True \<open>is_ack s\<close> by (simp add: run sent_deliver record_error_ack)
    next
      case False
      then have z: "cbcount g = 0" using Cons.prems by simp
      have c: "cbcount (deliver s g) = 1" using z True by (simp add: cbcount_deliver)
      have "sent (run_signals sigs (deliver s g)) =
          sent (deliver s g) @
            [response_for (fold record_error (upto_ack (2 - cbcount (deliver s g)) sigs) (error_var (deliver s g)))
                          (fold record_value (upto_ack (2 - cbcount (deliver s g)) sigs) (value_var (deliver s g)))]"
        using Cons.prems True z by (intro Cons.IH) (simp_all add: c acks_def)
      then show ?thesis
        using True z by (simp add: run c sent_deliver error_var_deliver value_var_deliver)
    qed
  qed
qed

lemma length_sent_run: "length (sent (run_signals sigs gate0)) = (if 2 \<le> acks sigs then 1 else 0)"
proof (cases "2 \<le> acks sigs")
  case True
  then show ?thesis using sent_run_enough [of gate0 sigs] by (simp add: gate0_def)
next
  case False
  then show ?thesis using sent_run_few [of gate0 sigs] by (simp add: gate0_def)
qed

subsection \<open>The dispatch table\<close>

lemma map_of_put: "map_of (put k v kvs) = (map_of kvs)(k \<mapsto> v)"
  by (induction kvs) auto

lemma fst_scan_tasks:
  "fst (fold (scan_task i taskName) js st) =
     (if (\<exists>j\<in>set js. Str j = taskName) \<and> log_params i = Bool False then False else fst st)"
  by (induction js arbitrary: st) (auto simp: scan_task_def)

lemma fst_scan_defns:
  "fst (scan_defns defns taskName st) =
     (fst st \<and> \<not> (\<exists>i\<in>set defns. (\<exists>j\<in>set (tasks i). Str j = taskName) \<and> log_params i = Bool False))"
  unfolding scan_defns_def
  by (induction defns arbitrary: st) (auto simp: fst_scan_tasks)

lemma snd_scan_tasks:
  assumes "''__proto__'' \<notin> set js \<or> onhttpmsg i = None" and "snd st = Table own"
  shows "\<exists>own'. snd (fold (scan_task i taskName) js st) = Table own' \<and>
           (\<forall>k. k \<noteq> ''__proto__'' \<longrightarrow>
                map_of own' k = (if k \<in> set js then Some (onhttpmsg i) else map_of own k)) \<and>
           map_of own' ''__proto__'' = map_of own ''__proto__''"
  using assms
proof (induction js arbitrary: st own)
  case Nil
  then show ?case by simp
next
  case (Cons j js)
  let ?st = "scan_task i taskName j st"
  obtain own1 where o1: "snd ?st = Table own1"
    and m1: "\<forall>k. k \<noteq> ''__proto__'' \<longrightarrow> map_of own1 k = (if k = j then Some (onhttpmsg i) else map_of own k)"
    and p1: "map_of own1 ''__proto__'' = map_of own ''__proto__''"
    using Cons.prems by (cases "j = ''__proto__''") (auto simp: scan_task_def map_of_put)
  have "''__proto__'' \<notin> set js \<or> onhttpmsg i = None" using Cons.prems by auto
  from Cons.IH [OF this o1] obtain own' where
    "snd (fold (scan_task i taskName) js ?st) = Table own'"
    "\<forall>k. k \<noteq> ''__proto__'' \<longrightarrow> map_of own' k = (if k \<in> set js then Some (onhttpmsg i) else map_of own1 k)"
    "map_of own' ''__proto__'' = map_of own1 ''__proto__''"
    by blast
  then show ?case using m1 p1 by auto
qed

lemma snd_scan_defns:
  assumes "\<forall>i\<in>set defns. plain_names i" and "snd st = Table own"
  shows "\<exists>own'. snd (scan_defns defns taskName st) = Table own' \<and>
           map_of own' ''__proto__'' = map_of own ''__proto__'' \<and>
           (\<forall>k. k \<noteq> ''__proto__'' \<longrightarrow>
              (if \<exists>i\<in>set defns. k \<in> set (tasks i)
               then \<exists>i\<in>set defns. k \<in> set (tasks i) \<and> map_of own' k = Some (onhttpmsg i)
               else map_of own' k = map_of own k))"
  using assms unfolding scan_defns_def
proof (induction defns arbitrary: st own)
  case Nil
  then show ?case by simp
next
  case (Cons i defns)
  let ?st = "fold (scan_task i taskName) (tasks i) st"
  have "''__proto__'' \<notin> set (tasks i) \<or> onhttpmsg i = None"
    using Cons.prems by (simp add: plain_names_def)
  from snd_scan_tasks [OF this Cons.prems(2)] obtain own1 where
    o1: "snd ?st = Table own1"
    and m1: "\<forall>k. k \<noteq> ''__proto__'' \<longrightarrow>
                map_of own1 k = (if k \<in> set (tasks i) then Some (onhttpmsg i) else map_of own k)"
    and p1: "map_of own1 ''__proto__'' = map_of own ''__proto__''"
    by blast
  have "\<forall>i\<in>set defns. plain_names i" using Cons.prems by simp
  from Cons.IH [OF this o1] obtain own' where
    o2: "snd (fold (\<lambda>i. fold (scan_task i taskName) (tasks i)) defns ?st) = Table own'"
    and p2: "map_of own' ''__proto__'' = map_of own1 ''__proto__''"
    and m2: "\<forall>k. k \<noteq> ''__proto__'' \<longrightarrow>
              (if \<exists>i\<in>set defns. k \<in> set (tasks i)
               then \<exists>i\<in>set defns. k \<in> set (tasks i) \<and> map_of own' k = Some (onhttpmsg i)
               else map_of own' k = map_of own1 k)"
    by blast
  have "\<forall>k. k \<noteq> ''__proto__'' \<longrightarrow>
              (if \<exists>i'\<in>set (i # defns). k \<in> set (tasks i')
               then \<exists>i'\<in>set (i # defns). k \<in> set (tasks i') \<and> map_of own' k = Some (onhttpmsg i')
               else map_of own' k = map_of own k)"
  proof (intro allI impI)
    fix k :: string
    assume k: "k \<noteq> ''__proto__''"
    show "if \<exists>i'\<in>set (i # defns). k \<in> set (tasks i')
          then \<exists>i'\<in>set (i # defns). k \<in> set (tasks i') \<and> map_of own' k = Some (onhttpmsg i')
          else map_of own' k = map_of own k"
      using m1 [rule_format, OF k] m2 [rule_format, OF k]
      by (cases "\<exists>i\<in>set defns. k \<in> set (tasks i)"; cases "k \<in> set (tasks i)") auto
  qed
  then show ?case using o2 p1 p2 by simp
qed

lemma js_get_Str_hasOwn: "js_get kvs k = Str t \<Longrightarrow> hasOwnProperty kvs k"
  by (auto simp: js_get_def hasOwnProperty_def split: option.splits dest: map_of_SomeD
           intro: rev_image_eqI)

lemma handler_dispatching:
  assumes "addressed_here self req"
    and "js_get (req_params req) ''task'' = Str t"
    and "hasOwnProperty (req_params req) ''params''"
    and "queueDefns self = Some defns"
  shows "handler self req =
     \<lparr>timeout_set = Some ((timeoutSeconds self + 300) * 1000),
      logged = [if fst (scan_defns defns (Str t) (True, Table []))
                then Info_task_params (req_params req) ''%s task params'' (Str t)
                else Info_not_logging ''Not logging task params for %s (log_params=false)'' (Str t)],
      outcome =
        (case snd (scan_defns defns (Str t) (True, Table [])) of
           Reparented \<Rightarrow> Not_modelled
         | Table own \<Rightarrow>
             (case dispatch_get own t of
                Own_function taskfn \<Rightarrow>
                  Task_called taskfn
                    \<lparr>ctx_req_id = getId req, ctx_req_host = headers_host req,
                     ctx_serverAddress = server_address self, ctx_task = Str t,
                     ctx_params = js_get (req_params req) ''params'', ctx_sysinfo = sysinfo self\<rparr>
              | Inherited_function f \<Rightarrow>
                  Builtin_called f
                    \<lparr>ctx_req_id = getId req, ctx_req_host = headers_host req,
                     ctx_serverAddress = server_address self, ctx_task = Str t,
                     ctx_params = js_get (req_params req) ''params'', ctx_sysinfo = sysinfo self\<rparr>
              | Inherited_object \<Rightarrow> TypeError_thrown
              | Falsy \<Rightarrow>
                  Next_error (ResourceNotFoundError
                    (''Unknown task, '' @ squote @ ''%s'' @ squote) (Str t))))\<rparr>"
proof -
  have "hasOwnProperty (req_params req) ''task''"
    using assms(2) by (rule js_get_Str_hasOwn)
  then show ?thesis
    using assms
    by (auto simp: handler_def addressed_here_def Let_def split: dispatch.split member.split)
qed

lemma unknown_task_not_found:
  assumes "addressed_here self req"
    and "js_get (req_params req) ''task'' = Str t"
    and "hasOwnProperty (req_params req) ''params''"
    and "queueDefns self = Some defns"
    and "\<forall>i\<in>set defns. plain_names i"
    and "\<not> registered defns t"
    and "t \<notin> set object_prototype_names"
  shows "outcome (handler self req) =
           Next_error (ResourceNotFoundError (''Unknown task, '' @ squote @ ''%s'' @ squote) (Str t))"
proof -
  have np: "t \<noteq> ''__proto__''" using assms(7) by (auto simp: object_prototype_names_def)
  obtain own' where o: "snd (scan_defns defns (Str t) (True, Table [])) = Table own'"
    and m: "\<forall>k. k \<noteq> ''__proto__'' \<longrightarrow>
              (if \<exists>i\<in>set defns. k \<in> set (tasks i)
               then \<exists>i\<in>set defns. k \<in> set (tasks i) \<and> map_of own' k = Some (onhttpmsg i)
               else map_of own' k = map_of [] k)"
    using snd_scan_defns [OF assms(5), of "(True, Table [])" "[]" "Str t"] by auto
  have "map_of own' t = None"
    using m [rule_format, OF np] assms(6) by (simp add: registered_def)
  then have "dispatch_get own' t = Falsy"
    using np assms(7) by (simp add: dispatch_get_def)
  then show ?thesis
    by (simp add: handler_dispatching [OF assms(1-4)] o)
qed

lemma registered_task_called:
  assumes "addressed_here self req"
    and "js_get (req_params req) ''task'' = Str t"
    and "hasOwnProperty (req_params req) ''params''"
    and "queueDefns self = Some defns"
    and "\<forall>i\<in>set defns. ''__proto__'' \<notin> set (tasks i) \<and> onhttpmsg i \<noteq> None"
    and "registered defns t"
  shows "\<exists>taskfn params. outcome (handler self req) = Task_called taskfn params"
proof -
  have pl: "\<forall>i\<in>set defns. plain_names i" using assms(5) by (simp add: plain_names_def)
  have np: "t \<noteq> ''__proto__''" using assms(5,6) by (auto simp: registered_def)
  obtain own' where o: "snd (scan_defns defns (Str t) (True, Table [])) = Table own'"
    and m: "\<forall>k. k \<noteq> ''__proto__'' \<longrightarrow>
              (if \<exists>i\<in>set defns. k \<in> set (tasks i)
               then \<exists>i\<in>set defns. k \<in> set (tasks i) \<and> map_of own' k = Some (onhttpmsg i)
               else map_of own' k = map_of [] k)"
    using snd_scan_defns [OF pl, of "(True, Table [])" "[]" "Str t"] by auto
  obtain i where "i \<in> set defns" "map_of own' t = Some (onhttpmsg i)"
    using m [rule_format, OF np] assms(6) by (auto simp: registered_def)
  then obtain h where "map_of own' t = Some (Some h)" using assms(5) by auto
  then have "dispatch_get own' t = Own_function h" by (simp add: dispatch_get_def)
  then show ?thesis
    by (simp add: handler_dispatching [OF assms(1-4)] o)
qed

subsection \<open>Claims about the dispatcher\<close>

text \<open>
  Claim C1, as the code has it. The response is sent when the second acknowledgment
  arrives, and every call of \<open>finish()\<close> and every emission \<open>event("finish", payload)\<close>
  counts as one acknowledgment, whatever its kind: a request has a response exactly when
  its task has driven at least two acknowledgments in total.
\<close>

theorem response_after_two_acks:
  "(sent (run_signals sigs gate0) \<noteq> []) = (2 \<le> acks sigs)"
  using length_sent_run [of sigs] by (cases "sent (run_signals sigs gate0)") (auto split: if_splits)

text \<open>
  The statement of C1 at an instance: two acknowledgments give a response, one does not.
\<close>

theorem response_after_two_acks_witness:
  "sent (run_signals [Event (Str ''finish'') (Num 7), Progress (Num 50), Finish] gate0) \<noteq> [] \<and>
   sent (run_signals [Event (Str ''finish'') (Num 7), Progress (Num 50)] gate0) = []"
  using response_after_two_acks [of "[Event (Str ''finish'') (Num 7), Progress (Num 50), Finish]"]
    response_after_two_acks [of "[Event (Str ''finish'') (Num 7), Progress (Num 50)]"]
  by (simp add: acks_def)

text \<open>
  Against C1 as stated (one acknowledgment of each kind is needed): two calls of
  \<open>finish()\<close> and no \<open>event("finish", _)\<close> at all complete the response.
\<close>

theorem two_finish_calls_complete:
  "filter is_finish_event [Finish, Finish] = [] \<and>
   sent (run_signals [Finish, Finish] gate0) = [(200, Undefined)]"
  by (simp add: run_signals_def gate0_def finish_def fcb_def)

text \<open>
  Claim C2, as the code has it. A request that is addressed to this node, carries a
  registered task name and a \<open>params\<close> field is handed to its task function, and then the
  number of responses is one if the task drives at least two acknowledgments, however many
  signals follow, and zero if it drives fewer.
\<close>

theorem at_most_one_response:
  assumes "addressed_here self req"
    and "js_get (req_params req) ''task'' = Str t"
    and "hasOwnProperty (req_params req) ''params''"
    and "queueDefns self = Some defns"
    and "\<forall>i\<in>set defns. ''__proto__'' \<notin> set (tasks i) \<and> onhttpmsg i \<noteq> None"
    and "registered defns t"
  shows "length (responses (handler self req) sigs) = (if 2 \<le> acks sigs then 1 else 0)"
proof -
  obtain taskfn params where "outcome (handler self req) = Task_called taskfn params"
    using registered_task_called [OF assms] by blast
  then show ?thesis by (simp add: responses_def length_sent_run)
qed

text \<open>
  The statement of C2 at an instance: four acknowledgments, one response.
\<close>

theorem at_most_one_response_witness:
  "length (responses
     (handler \<lparr>uuid = ''cn-1'', timeoutSeconds = 3600, sysinfo = Null, server_address = Null,
               queueDefns = Some [\<lparr>tasks = [''machine_create''], log_params = Undefined,
                                    onhttpmsg = Some (1::nat)\<rparr>]\<rparr>
              \<lparr>header_x_server_uuid = None, headers_host = Null, getId = ''r1'',
               req_params = [(''task'', Str ''machine_create''), (''params'', Obj [])]\<rparr>)
     [Finish, Event (Str ''finish'') (Num 1), Finish, Event (Str ''finish'') (Num 2)]) = 1"
  using at_most_one_response
    [of "\<lparr>uuid = ''cn-1'', timeoutSeconds = 3600, sysinfo = Null, server_address = Null,
               queueDefns = Some [\<lparr>tasks = [''machine_create''], log_params = Undefined,
                                    onhttpmsg = Some (1::nat)\<rparr>]\<rparr>"
        "\<lparr>header_x_server_uuid = None, headers_host = Null, getId = ''r1'',
               req_params = [(''task'', Str ''machine_create''), (''params'', Obj [])]\<rparr>"
        "''machine_create''"
        "[\<lparr>tasks = [''machine_create''], log_params = Undefined, onhttpmsg = Some (1::nat)\<rparr>]"
        "[Finish, Event (Str ''finish'') (Num 1), Finish, Event (Str ''finish'') (Num 2)]"]
  by (simp add: addressed_here_def js_get_def hasOwnProperty_def registered_def acks_def)

text \<open>
  Against C2 as stated (never zero responses): a registered task that calls \<open>finish()\<close>
  once and emits nothing else gets no response.
\<close>

theorem single_signal_no_response:
  "responses
     (handler \<lparr>uuid = ''cn-1'', timeoutSeconds = 3600, sysinfo = Null, server_address = Null,
               queueDefns = Some [\<lparr>tasks = [''machine_create''], log_params = Undefined,
                                    onhttpmsg = Some (1::nat)\<rparr>]\<rparr>
              \<lparr>header_x_server_uuid = None, headers_host = Null, getId = ''r1'',
               req_params = [(''task'', Str ''machine_create''), (''params'', Obj [])]\<rparr>)
     [Finish] = []"
  by (simp add: responses_def handler_def hasOwnProperty_def js_get_def scan_defns_def
      scan_task_def dispatch_get_def run_signals_def gate0_def finish_def fcb_def)

text \<open>
  Claim C3. A request whose \<open>x-server-uuid\<close> header differs from the agent's uuid is
  passed to \<open>next\<close> with an \<open>InternalError\<close> whose message quotes both identifiers;
  no timeout is set, nothing is logged, and neither \<open>req.params\<close> nor the queue
  definitions influence the result.
\<close>

theorem wrong_target_rejected:
  assumes "header_x_server_uuid req = Some target" and "target \<noteq> uuid self"
  shows "handler (self\<lparr>queueDefns := q\<rparr>) (req\<lparr>req_params := p\<rparr>) =
           \<lparr>timeout_set = None, logged = [],
            outcome = Next_error (InternalError
              (''received request for wrong server. we are: '' @ dquote @ uuid self @ dquote @
               '' received: '' @ dquote @ target @ dquote))\<rparr>"
  using assms by (simp add: handler_def rejected_def wrong_server_message_def)

text \<open>
  The statement of C3 at an instance.
\<close>

theorem wrong_target_rejected_witness:
  "handler \<lparr>uuid = ''cn-1'', timeoutSeconds = 3600, sysinfo = Null, server_address = Null,
            queueDefns = Some [\<lparr>tasks = [''machine_create''], log_params = Undefined,
                                 onhttpmsg = Some (1::nat)\<rparr>]\<rparr>
           \<lparr>header_x_server_uuid = Some ''cn-2'', headers_host = Null, getId = ''r1'',
            req_params = [(''task'', Str ''machine_create''), (''params'', Obj [])]\<rparr> =
   \<lparr>timeout_set = None, logged = [],
    outcome = Next_error (InternalError
      (''received request for wrong server. we are: '' @ dquote @ ''cn-1'' @ dquote @
       '' received: '' @ dquote @ ''cn-2'' @ dquote))\<rparr>"
  using wrong_target_rejected
    [of "\<lparr>header_x_server_uuid = Some ''cn-2'', headers_host = Null, getId = ''r1'',
            req_params = []\<rparr>" "''cn-2''"
        "\<lparr>uuid = ''cn-1'', timeoutSeconds = 3600, sysinfo = Null, server_address = Null,
            queueDefns = None\<rparr>"
        "Some [\<lparr>tasks = [''machine_create''], log_params = Undefined, onhttpmsg = Some (1::nat)\<rparr>]"
        "[(''task'', Str ''machine_create''), (''params'', Obj [])]"]
  by simp

text \<open>
  Claim C4, as the code has it. A request that passes the target check (no
  \<open>x-server-uuid\<close> header, or the agent's own uuid) and lacks \<open>task\<close> or \<open>params\<close> is
  passed to \<open>next\<close> with an \<open>InvalidArgumentError\<close> naming the first missing key; no
  timeout is set, nothing is logged, and the queue definitions are not consulted.
\<close>

theorem missing_key_rejected:
  assumes "header_x_server_uuid req = None \<or> header_x_server_uuid req = Some (uuid self)"
    and "\<not> hasOwnProperty (req_params req) ''task'' \<or> \<not> hasOwnProperty (req_params req) ''params''"
  shows "handler (self\<lparr>queueDefns := q\<rparr>) req =
           \<lparr>timeout_set = None, logged = [],
            outcome = Next_error (InvalidArgumentError
              (''Missing key '' @ squote @
               (if \<not> hasOwnProperty (req_params req) ''task'' then ''task'' else ''params'') @
               squote))\<rparr>"
  using assms by (auto simp: handler_def rejected_def)

text \<open>
  The statement of C4 at an instance.
\<close>

theorem missing_key_rejected_witness:
  "handler \<lparr>uuid = ''cn-1'', timeoutSeconds = 3600, sysinfo = Null, server_address = Null,
            queueDefns = Some [\<lparr>tasks = [''machine_create''], log_params = Undefined,
                                 onhttpmsg = Some (1::nat)\<rparr>]\<rparr>
           \<lparr>header_x_server_uuid = Some ''cn-1'', headers_host = Null, getId = ''r1'',
            req_params = [(''task'', Str ''machine_create'')]\<rparr> =
   \<lparr>timeout_set = None, logged = [],
    outcome = Next_error (InvalidArgumentError (''Missing key '' @ squote @ ''params'' @ squote))\<rparr>"
  using missing_key_rejected
    [of "\<lparr>header_x_server_uuid = Some ''cn-1'', headers_host = Null, getId = ''r1'',
            req_params = [(''task'', Str ''machine_create'')]\<rparr>"
        "\<lparr>uuid = ''cn-1'', timeoutSeconds = 3600, sysinfo = Null, server_address = Null,
            queueDefns = None\<rparr>"
        "Some [\<lparr>tasks = [''machine_create''], log_params = Undefined, onhttpmsg = Some (1::nat)\<rparr>]"]
  by (simp add: hasOwnProperty_def)

text \<open>
  Against C4 as stated (every request lacking \<open>task\<close>): when the target header is
  wrong as well, the rejection is the \<open>InternalError\<close> of the target check.
\<close>

theorem missing_key_counterexample:
  "\<not> hasOwnProperty [(''params'', Obj [])] ''task'' \<and>
   handler \<lparr>uuid = ''cn-1'', timeoutSeconds = 3600, sysinfo = Null, server_address = Null,
            queueDefns = Some ([] :: nat queue_defn list)\<rparr>
           \<lparr>header_x_server_uuid = Some ''cn-2'', headers_host = Null, getId = ''r1'',
            req_params = [(''params'', Obj [])]\<rparr> =
   \<lparr>timeout_set = None, logged = [],
    outcome = Next_error (InternalError
      (''received request for wrong server. we are: '' @ dquote @ ''cn-1'' @ dquote @
       '' received: '' @ dquote @ ''cn-2'' @ dquote))\<rparr>"
  by (simp add: handler_def rejected_def wrong_server_message_def hasOwnProperty_def)

text \<open>
  Claim C5 at the task name \<open>constructor\<close>, which no queue definition lists:
  \<open>dispatch["constructor"]\<close> is the function inherited from \<open>Object.prototype\<close>, so
  \<open>taskfn\<close> is truthy, the built-in is called with the context, and \<open>next\<close> is never
  called with a \<open>ResourceNotFoundError\<close>.
\<close>

theorem unknown_task_constructor_called:
  "handler \<lparr>uuid = ''cn-1'', timeoutSeconds = 3600, sysinfo = Null, server_address = Null,
            queueDefns = Some [\<lparr>tasks = [''machine_create''], log_params = Undefined,
                                 onhttpmsg = Some (1::nat)\<rparr>]\<rparr>
           \<lparr>header_x_server_uuid = None, headers_host = Null, getId = ''r1'',
            req_params = [(''task'', Str ''constructor''), (''params'', Obj [])]\<rparr> =
   \<lparr>timeout_set = Some 3900000,
    logged = [Info_task_params [(''task'', Str ''constructor''), (''params'', Obj [])]
                ''%s task params'' (Str ''constructor'')],
    outcome = Builtin_called ''constructor''
      \<lparr>ctx_req_id = ''r1'', ctx_req_host = Null, ctx_serverAddress = Null,
       ctx_task = Str ''constructor'', ctx_params = Obj [], ctx_sysinfo = Null\<rparr>\<rparr>"
  by (simp add: handler_def hasOwnProperty_def js_get_def scan_defns_def scan_task_def
      dispatch_get_def object_prototype_names_def)

text \<open>
  The parameter log for a task name given as a string. When the name is listed by a queue
  definition whose \<open>log_params\<close> is \<open>false\<close>, the log records written by \<open>handler\<close> do
  not depend on the \<open>params\<close> field: whatever \<open>params\<close> is, the only record is the fixed
  notice with the task name (and there is no record at all when the target check rejects
  the request).
\<close>

lemma string_task_name_hides_params:
  assumes "queueDefns self = Some defns"
    and "i \<in> set defns" and "t \<in> set (tasks i)" and "log_params i = Bool False"
    and "js_get (req_params req) ''task'' = Str t"
  shows "logged (handler self (req\<lparr>req_params := put ''params'' p (req_params req)\<rparr>)) =
           (if addressed_here self req
            then [Info_not_logging ''Not logging task params for %s (log_params=false)'' (Str t)]
            else [])"
proof (cases "addressed_here self req")
  case False
  then show ?thesis
    by (auto simp: handler_def rejected_def addressed_here_def)
next
  case True
  let ?req = "req\<lparr>req_params := put ''params'' p (req_params req)\<rparr>"
  have a: "addressed_here self ?req" using True by (simp add: addressed_here_def)
  have b: "js_get (req_params ?req) ''task'' = Str t"
    using assms(5) by (simp add: js_get_def map_of_put)
  have c: "hasOwnProperty (req_params ?req) ''params''"
    using map_of_put [of "''params''" p "req_params req"]
    by (simp add: hasOwnProperty_def) (metis domI dom_map_of_conv_image_fst fun_upd_same)
  have "\<not> fst (scan_defns defns (Str t) (True, Table []))"
    using assms(2-4) by (auto simp: fst_scan_defns)
  then show ?thesis
    using True by (simp add: handler_dispatching [OF a b c assms(1)])
qed

text \<open>
  Claim C6 at the task name \<open>["server_update_keys"]\<close>, a one-element array, with the only
  queue definition listing \<open>server_update_keys\<close> with \<open>log_params\<close> \<open>false\<close>. No listed
  name is strictly equal to the array, so \<open>logParams\<close> stays \<open>true\<close> and \<open>req.params\<close> is
  logged with the token in it; the lookup \<open>dispatch[req.params.task]\<close> converts the array
  to the string \<open>server_update_keys\<close>, and the task function of that queue definition is
  called with the parameters. A second request that differs only in the token produces a
  different log record.
\<close>

theorem array_task_name_logs_params:
  "handler \<lparr>uuid = ''cn-1'', timeoutSeconds = 3600, sysinfo = Null, server_address = Null,
            queueDefns = Some [\<lparr>tasks = [''server_update_keys''], log_params = Bool False,
                                 onhttpmsg = Some (1::nat)\<rparr>]\<rparr>
           \<lparr>header_x_server_uuid = None, headers_host = Null, getId = ''r1'',
            req_params = [(''task'', Arr [Str ''server_update_keys'']),
                          (''params'', Obj [(''token'', Str ''secret-1'')])]\<rparr> =
   \<lparr>timeout_set = Some 3900000,
    logged = [Info_task_params [(''task'', Arr [Str ''server_update_keys'']),
                                (''params'', Obj [(''token'', Str ''secret-1'')])]
                ''%s task params'' (Arr [Str ''server_update_keys''])],
    outcome = Task_called 1
      \<lparr>ctx_req_id = ''r1'', ctx_req_host = Null, ctx_serverAddress = Null,
       ctx_task = Arr [Str ''server_update_keys''],
       ctx_params = Obj [(''token'', Str ''secret-1'')], ctx_sysinfo = Null\<rparr>\<rparr> \<and>
   logged (handler
     \<lparr>uuid = ''cn-1'', timeoutSeconds = 3600, sysinfo = Null, server_address = Null,
      queueDefns = Some [\<lparr>tasks = [''server_update_keys''], log_params = Bool False,
                           onhttpmsg = Some (1::nat)\<rparr>]\<rparr>
     \<lparr>header_x_server_uuid = None, headers_host = Null, getId = ''r1'',
      req_params = [(''task'', Arr [Str ''server_update_keys'']),
                    (''params'', Obj [(''token'', Str ''secret-2'')])]\<rparr>) =
   [Info_task_params [(''task'', Arr [Str ''server_update_keys'']),
                      (''params'', Obj [(''token'', Str ''secret-2'')])]
      ''%s task params'' (Arr [Str ''server_update_keys''])]"
  by (simp add: handler_def hasOwnProperty_def js_get_def scan_defns_def scan_task_def
      dispatch_get_def object_prototype_names_def Let_def)

text \<open>
  Claim C7, as the code has it. Once two acknowledgments have arrived, the one response
  is decided by the payloads recorded up to the second acknowledgment: status 500 with the
  last \<open>event("error", _)\<close> payload if that payload is truthy, otherwise status 200 with
  the last \<open>event("finish", _)\<close> payload (\<open>undefined\<close> if there was none).
\<close>

theorem response_status_and_body:
  assumes "2 \<le> acks sigs"
  shows "sent (run_signals sigs gate0) =
           [let e = recorded_error (upto_ack 2 sigs); v = recorded_value (upto_ack 2 sigs)
            in if truthy e then (500, e) else (200, v)]"
  using sent_run_enough [of gate0 sigs] assms
  by (simp add: gate0_def response_for_def recorded_error_def recorded_value_def Let_def)

text \<open>
  The statement of C7 at an instance; the error recorded after the second acknowledgment
  is ignored.
\<close>

theorem response_status_and_body_witness:
  "sent (run_signals
           [Event (Str ''error'') (Obj [(''error'', Str ''boom'')]), Finish,
            Event (Str ''finish'') (Num 1), Event (Str ''error'') Null] gate0) =
     [(500, Obj [(''error'', Str ''boom'')])]"
  using response_status_and_body
    [of "[Event (Str ''error'') (Obj [(''error'', Str ''boom'')]), Finish,
          Event (Str ''finish'') (Num 1), Event (Str ''error'') Null]"]
  by (simp add: acks_def recorded_error_def recorded_value_def)

text \<open>
  Against C7 as stated (every recorded error gives status 500): an error payload that
  is the empty string is recorded, and the response is still 200.
\<close>

theorem falsy_error_reported_as_success:
  "recorded_error [Event (Str ''error'') (Str '''')] = Str '''' \<and>
   sent (run_signals [Event (Str ''error'') (Str ''''), Finish, Event (Str ''finish'') (Num 1)]
           gate0) = [(200, Num 1)]"
  by (simp add: recorded_error_def run_signals_def gate0_def finish_def event_def fcb_def)

section \<open>Properties of \<open>map_payload\<close>\<close>

lemma listing_of_plain:
  "key \<notin> set object_prototype_names \<Longrightarrow>
   listing_of M key = (case map_of M key of Some b \<Rightarrow> Listed b | None \<Rightarrow> Unlisted)"
  by (simp add: listing_of_def split: option.splits)

lemma assign_plain:
  "key \<noteq> ''__proto__'' \<Longrightarrow> assign key v ob = (put key v (fst ob), snd ob)"
  by (simp add: assign_def)

lemma proto_name: "''__proto__'' \<in> set object_prototype_names"
  by (simp add: object_prototype_names_def)

lemma map_thing_key_plain:
  assumes "key \<notin> set object_prototype_names"
  shows "snd (fst (map_thing_key M name idx thing key st)) = snd (fst st)"
    and "map_of (fst (fst (map_thing_key M name idx thing key st))) =
           (if map_of M key = Some True then (map_of (fst (fst st)))(key \<mapsto> js_get thing key)
            else map_of (fst (fst st)))"
proof -
  have k: "key \<noteq> ''__proto__''" using assms proto_name by auto
  show "snd (fst (map_thing_key M name idx thing key st)) = snd (fst st)"
    using assms k
    by (auto simp: map_thing_key_def listing_of_plain assign_plain split: option.splits bool.splits)
  show "map_of (fst (fst (map_thing_key M name idx thing key st))) =
           (if map_of M key = Some True then (map_of (fst (fst st)))(key \<mapsto> js_get thing key)
            else map_of (fst (fst st)))"
    using assms k
    by (auto simp: map_thing_key_def listing_of_plain assign_plain map_of_put
        split: option.splits bool.splits)
qed

lemma fold_map_thing_key_plain:
  assumes "set keys \<inter> set object_prototype_names = {}"
  shows "snd (fst (fold (map_thing_key M name idx thing) keys st)) = snd (fst st) \<and>
         map_of (fst (fst (fold (map_thing_key M name idx thing) keys st))) =
           (\<lambda>k. if k \<in> set keys \<and> map_of M k = Some True then Some (js_get thing k)
                else map_of (fst (fst st)) k)"
  using assms
proof (induction keys arbitrary: st)
  case Nil
  show ?case by simp
next
  case (Cons key keys)
  have k: "key \<notin> set object_prototype_names" and ks: "set keys \<inter> set object_prototype_names = {}"
    using Cons.prems by auto
  show ?case
    using Cons.IH [OF ks, of "map_thing_key M name idx thing key st"]
      map_thing_key_plain [OF k, of M name idx thing st]
    by (auto simp: fun_eq_iff)
qed

lemma js_get_of_key: "k \<in> set (map fst thing) \<Longrightarrow> Some (js_get thing k) = map_of thing k"
  by (cases "map_of thing k") (auto simp: js_get_def map_of_eq_None_iff)

lemma new_thing_plain:
  assumes "plain_keys thing"
  shows "fst (fold (map_thing_key M name idx thing) (map fst thing) (empty_object, ign)) =
           (fst (fst (fold (map_thing_key M name idx thing) (map fst thing) (empty_object, ign))), None)"
    and "map_of (fst (fst (fold (map_thing_key M name idx thing) (map fst thing) (empty_object, ign)))) =
           whitelisted M thing"
proof -
  let ?r = "fold (map_thing_key M name idx thing) (map fst thing) (empty_object, ign)"
  have a: "set (map fst thing) \<inter> set object_prototype_names = {}"
    using assms by (simp add: plain_keys_def)
  note f = fold_map_thing_key_plain [OF a, of M name idx thing "(empty_object, ign)"]
  have "snd (fst ?r) = None" using f by (simp add: empty_object_def)
  then show "fst ?r = (fst (fst ?r), None)" by (metis prod.collapse)
  have "map_of (fst (fst ?r)) k = whitelisted M thing k" for k
  proof (cases "k \<in> set (map fst thing)")
    case True
    then show ?thesis using f js_get_of_key [OF True]
      by (simp add: empty_object_def whitelisted_def)
  next
    case False
    then have "map_of thing k = None" by (simp add: map_of_eq_None_iff)
    then show ?thesis using f False by (simp add: empty_object_def whitelisted_def)
  qed
  then show "map_of (fst (fst ?r)) = whitelisted M thing" by (rule ext)
qed

lemma fst_map_things_indep:
  "fst (map_things M name idx xs ign) = fst (map_things M name idx xs [])"
proof (induction xs arbitrary: idx ign)
  case Nil
  show ?case by simp
next
  case (Cons x xs)
  have step: "fst (map_thing_key M name idx thing key st) = fst (map_thing_key M name idx thing key (fst st, ign'))"
    for thing key st ign'
    by (simp add: map_thing_key_def split: listing.splits bool.splits)
  have fold_indep: "fst (fold (map_thing_key M name idx thing) keys (ob, ign1)) =
                    fst (fold (map_thing_key M name idx thing) keys (ob, ign2))"
    for thing keys ob ign1 ign2
  proof (induction keys arbitrary: ob ign1 ign2)
    case Nil
    show ?case by simp
  next
    case (Cons key keys)
    obtain ob1 i1 where r1: "map_thing_key M name idx thing key (ob, ign1) = (ob1, i1)"
      by (cases "map_thing_key M name idx thing key (ob, ign1)")
    obtain ob2 i2 where r2: "map_thing_key M name idx thing key (ob, ign2) = (ob2, i2)"
      by (cases "map_thing_key M name idx thing key (ob, ign2)")
    have "ob1 = ob2" using step [of thing key "(ob, ign1)" ign2] r1 r2 by simp
    then show ?case using Cons.IH [of ob1 i1 i2] r1 r2 by simp
  qed
  show ?case
    using Cons.IH fold_indep
    by (simp add: Let_def) metis
qed


lemma map_things_plain:
  assumes "\<forall>x\<in>set xs. plain_keys (props_of x)"
  shows "list_all2 (\<lambda>x t. snd t = None \<and> map_of (fst t) = whitelisted M (props_of x))
           xs (fst (map_things M name idx xs ign))"
  using assms
proof (induction xs arbitrary: idx ign)
  case Nil
  show ?case by simp
next
  case (Cons x xs)
  have p: "plain_keys (props_of x)" using Cons.prems by simp
  have rest: "\<forall>x\<in>set xs. plain_keys (props_of x)" using Cons.prems by simp
  let ?r = "fold (map_thing_key M name idx (props_of x)) (map fst (props_of x)) (empty_object, ign)"
  have "snd (fst ?r) = None"
    using new_thing_plain(1) [OF p, of M name idx ign] by (metis snd_conv)
  moreover have "map_of (fst (fst ?r)) = whitelisted M (props_of x)"
    by (rule new_thing_plain(2) [OF p])
  ultimately show ?case
    using Cons.IH [OF rest] by (simp add: Let_def props_of_def)
qed

lemma ignored_grows_thing_key: "set (snd st) \<subseteq> set (snd (map_thing_key M name idx thing key st))"
  by (auto simp: map_thing_key_def split: listing.splits bool.splits)

lemma ignored_grows_fold:
  "set (snd st) \<subseteq> set (snd (fold (map_thing_key M name idx thing) keys st))"
proof (induction keys arbitrary: st)
  case Nil
  show ?case by simp
next
  case (Cons key keys)
  show ?case
    using Cons.IH [of "map_thing_key M name idx thing key st"]
      ignored_grows_thing_key [of st M name idx thing key]
    by auto
qed

lemma ignored_grows_things: "set ign \<subseteq> set (snd (map_things M name idx xs ign))"
proof (induction xs arbitrary: idx ign)
  case Nil
  show ?case by simp
next
  case (Cons x xs)
  let ?st = "fold (map_thing_key M name idx (props_of x)) (map fst (props_of x)) (empty_object, ign)"
  have "set ign \<subseteq> set (snd ?st)"
    using ignored_grows_fold [of "(empty_object, ign)"] by simp
  moreover have "set (snd ?st) \<subseteq> set (snd (map_things M name (idx + 1) xs (snd ?st)))"
    by (rule Cons.IH)
  ultimately show ?case by (simp add: Let_def props_of_def)
qed

lemma map_thing_Some:
  assumes "map_thing ign M name v = Some r"
  shows "\<exists>xs. v = Arr xs \<and> list_all (\<lambda>x. own_props x \<noteq> None) xs \<and>
           fst r = fst (map_things M name 0 xs []) \<and> set ign \<subseteq> set (snd r)"
proof -
  obtain xs where v: "v = Arr xs" and ok: "list_all (\<lambda>x. own_props x \<noteq> None) xs"
    and r: "r = map_things M name 0 xs ign"
    using assms by (auto simp: map_thing_def split: jsval.splits if_splits)
  have "fst r = fst (map_things M name 0 xs [])" unfolding r by (rule fst_map_things_indep)
  moreover have "set ign \<subseteq> set (snd r)" unfolding r by (rule ignored_grows_things)
  ultimately show ?thesis using v ok by blast
qed

lemma map_payload_key_plain:
  assumes "map_payload_key kvs key st = Some st'" and "key \<notin> set object_prototype_names"
  shows "snd (props (fst st')) = snd (props (fst st))"
    and "map_of (fst (props (fst st'))) =
           (if key \<noteq> ''nics'' \<and> key \<noteq> ''disks'' \<and> map_of VM_PAYLOAD key = Some True
            then (map_of (fst (props (fst st))))(key \<mapsto> js_get kvs key)
            else map_of (fst (props (fst st))))"
    and "nics_prop (fst st') =
           (if key = ''nics'' then nics_from NIC_PAYLOAD ''nic'' (js_get kvs ''nics'')
            else nics_prop (fst st))"
    and "disks_prop (fst st') =
           (if key = ''disks'' then nics_from DISK_PAYLOAD ''disk'' (js_get kvs ''disks'')
            else disks_prop (fst st))"
    and "key = ''nics'' \<or> key = ''disks'' \<longrightarrow> (\<exists>xs. js_get kvs key = Arr xs \<and> list_all (\<lambda>x. own_props x \<noteq> None) xs)"
    and "set (snd st) \<subseteq> set (snd st')"
    and "key \<noteq> ''nics'' \<and> key \<noteq> ''disks'' \<and> map_of VM_PAYLOAD key = None \<longrightarrow> key \<in> set (snd st')"
proof -
  have k: "key \<noteq> ''__proto__''" using assms(2) proto_name by auto
  consider (nics) "key = ''nics''" | (disks) "key = ''disks''"
    | (other) "key \<noteq> ''nics''" "key \<noteq> ''disks''" by blast
  then have "snd (props (fst st')) = snd (props (fst st)) \<and>
     map_of (fst (props (fst st'))) =
           (if key \<noteq> ''nics'' \<and> key \<noteq> ''disks'' \<and> map_of VM_PAYLOAD key = Some True
            then (map_of (fst (props (fst st))))(key \<mapsto> js_get kvs key)
            else map_of (fst (props (fst st)))) \<and>
     nics_prop (fst st') =
           (if key = ''nics'' then nics_from NIC_PAYLOAD ''nic'' (js_get kvs ''nics'')
            else nics_prop (fst st)) \<and>
     disks_prop (fst st') =
           (if key = ''disks'' then nics_from DISK_PAYLOAD ''disk'' (js_get kvs ''disks'')
            else disks_prop (fst st)) \<and>
     (key = ''nics'' \<or> key = ''disks'' \<longrightarrow> (\<exists>xs. js_get kvs key = Arr xs \<and> list_all (\<lambda>x. own_props x \<noteq> None) xs)) \<and>
     set (snd st) \<subseteq> set (snd st') \<and>
     (key \<noteq> ''nics'' \<and> key \<noteq> ''disks'' \<and> map_of VM_PAYLOAD key = None \<longrightarrow> key \<in> set (snd st'))"
  proof cases
    case nics
    then obtain r where r: "map_thing (snd st) NIC_PAYLOAD ''nic'' (js_get kvs ''nics'') = Some r"
      and st': "st' = ((fst st)\<lparr>nics_prop := Some (Mapped (fst r))\<rparr>, snd r)"
      using assms(1) by (auto simp: map_payload_key_def split: option.splits)
    from map_thing_Some [OF r] show ?thesis
      using nics st' by (auto simp: nics_from_def)
  next
    case disks
    then obtain r where r: "map_thing (snd st) DISK_PAYLOAD ''disk'' (js_get kvs ''disks'') = Some r"
      and st': "st' = ((fst st)\<lparr>disks_prop := Some (Mapped (fst r))\<rparr>, snd r)"
      using assms(1) by (auto simp: map_payload_key_def split: option.splits)
    from map_thing_Some [OF r] show ?thesis
      using disks st' by (auto simp: nics_from_def)
  next
    case other
    then show ?thesis
      using assms k
      by (auto simp: map_payload_key_def listing_of_plain assign_plain map_of_put
          split: option.splits bool.splits)
  qed
  then show "snd (props (fst st')) = snd (props (fst st))"
    and "map_of (fst (props (fst st'))) =
           (if key \<noteq> ''nics'' \<and> key \<noteq> ''disks'' \<and> map_of VM_PAYLOAD key = Some True
            then (map_of (fst (props (fst st))))(key \<mapsto> js_get kvs key)
            else map_of (fst (props (fst st))))"
    and "nics_prop (fst st') =
           (if key = ''nics'' then nics_from NIC_PAYLOAD ''nic'' (js_get kvs ''nics'')
            else nics_prop (fst st))"
    and "disks_prop (fst st') =
           (if key = ''disks'' then nics_from DISK_PAYLOAD ''disk'' (js_get kvs ''disks'')
            else disks_prop (fst st))"
    and "key = ''nics'' \<or> key = ''disks'' \<longrightarrow> (\<exists>xs. js_get kvs key = Arr xs \<and> list_all (\<lambda>x. own_props x \<noteq> None) xs)"
    and "set (snd st) \<subseteq> set (snd st')"
    and "key \<noteq> ''nics'' \<and> key \<noteq> ''disks'' \<and> map_of VM_PAYLOAD key = None \<longrightarrow> key \<in> set (snd st')"
    by blast+
qed


lemma map_payload_keys_plain:
  assumes "map_payload_keys kvs keys st = Some st'"
    and "set keys \<inter> set object_prototype_names = {}"
  shows "snd (props (fst st')) = snd (props (fst st)) \<and>
     map_of (fst (props (fst st'))) =
       (\<lambda>k. if k \<in> set keys \<and> k \<noteq> ''nics'' \<and> k \<noteq> ''disks'' \<and> map_of VM_PAYLOAD k = Some True
            then Some (js_get kvs k) else map_of (fst (props (fst st))) k) \<and>
     nics_prop (fst st') =
       (if ''nics'' \<in> set keys then nics_from NIC_PAYLOAD ''nic'' (js_get kvs ''nics'')
        else nics_prop (fst st)) \<and>
     disks_prop (fst st') =
       (if ''disks'' \<in> set keys then nics_from DISK_PAYLOAD ''disk'' (js_get kvs ''disks'')
        else disks_prop (fst st)) \<and>
     (\<forall>k\<in>set keys. k = ''nics'' \<or> k = ''disks'' \<longrightarrow>
        (\<exists>xs. js_get kvs k = Arr xs \<and> list_all (\<lambda>x. own_props x \<noteq> None) xs)) \<and>
     set (snd st) \<subseteq> set (snd st') \<and>
     (\<forall>k\<in>set keys. k \<noteq> ''nics'' \<and> k \<noteq> ''disks'' \<and> map_of VM_PAYLOAD k = None \<longrightarrow>
        k \<in> set (snd st'))"
  using assms
proof (induction keys arbitrary: st)
  case Nil
  then show ?case by simp
next
  case (Cons key keys)
  obtain st1 where s1: "map_payload_key kvs key st = Some st1"
    and s2: "map_payload_keys kvs keys st1 = Some st'"
    using Cons.prems(1) by (auto split: option.splits)
  have k: "key \<notin> set object_prototype_names"
    and ks: "set keys \<inter> set object_prototype_names = {}"
    using Cons.prems(2) by auto
  note step = map_payload_key_plain [OF s1 k]
  note ih = Cons.IH [OF s2 ks]
  have a: "snd (props (fst st')) = snd (props (fst st))"
    using ih step(1) by simp
  have b: "map_of (fst (props (fst st'))) =
       (\<lambda>k. if k \<in> set (key # keys) \<and> k \<noteq> ''nics'' \<and> k \<noteq> ''disks'' \<and> map_of VM_PAYLOAD k = Some True
            then Some (js_get kvs k) else map_of (fst (props (fst st))) k)"
    using ih step(2) by (auto simp: fun_eq_iff)
  have c: "nics_prop (fst st') =
       (if ''nics'' \<in> set (key # keys) then nics_from NIC_PAYLOAD ''nic'' (js_get kvs ''nics'')
        else nics_prop (fst st))"
    using ih step(3) by auto
  have d: "disks_prop (fst st') =
       (if ''disks'' \<in> set (key # keys) then nics_from DISK_PAYLOAD ''disk'' (js_get kvs ''disks'')
        else disks_prop (fst st))"
    using ih step(4) by auto
  have e: "\<forall>k\<in>set (key # keys). k = ''nics'' \<or> k = ''disks'' \<longrightarrow>
        (\<exists>xs. js_get kvs k = Arr xs \<and> list_all (\<lambda>x. own_props x \<noteq> None) xs)"
    using ih step(5) by auto
  have f: "set (snd st) \<subseteq> set (snd st')"
    using ih step(6) by blast
  have g: "\<forall>k\<in>set (key # keys). k \<noteq> ''nics'' \<and> k \<noteq> ''disks'' \<and> map_of VM_PAYLOAD k = None \<longrightarrow>
        k \<in> set (snd st')"
  proof
    fix k assume "k \<in> set (key # keys)"
    then consider "k = key" | "k \<in> set keys" by auto
    then show "k \<noteq> ''nics'' \<and> k \<noteq> ''disks'' \<and> map_of VM_PAYLOAD k = None \<longrightarrow> k \<in> set (snd st')"
    proof cases
      case 1
      then show ?thesis using step(7) ih by blast
    next
      case 2
      then show ?thesis using ih by blast
    qed
  qed
  show ?case using a b c d e f g by blast
qed



lemma member_plain:
  "member (own, None) name = (case map_of own name of Some v \<Rightarrow> v | None \<Rightarrow> Undefined)"
  by (simp add: member_def inherited_def split: option.splits)

lemma member_put:
  "member (put k v own, None) name = (if name = k then v else member (own, None) name)"
  by (simp add: member_plain map_of_put)

lemma fill_defaults_eval:
  assumes f: "map_of own0 ''max_locked_memory'' = None" "map_of own0 ''zpool'' = None"
      "map_of own0 ''zfs_io_priority'' = None"
  shows "fill_defaults \<lparr>props = (own0, None), nics_prop = n0, disks_prop = d0\<rparr> =
     (case js_to_string (member (own0, None) ''uuid'') of
        None \<Rightarrow> None
      | Some us \<Rightarrow>
          Some \<lparr>props =
              (put ''zfs_io_priority'' (Num 100)
                (put ''zonepath'' (Str (''/zones/'' @ us))
                  (put ''zfs_filesystem'' (Str (''zones/'' @ us))
                    (put ''zpool'' (Str ''zones'')
                      ((if member (own0, None) ''max_swap'' \<noteq> Undefined
                        then put ''max_locked_memory'' (member (own0, None) ''max_swap'')
                        else id)
                        (put ''limit_priv'' (Str ''default'')
                          (put ''datasets'' (Arr [])
                            (put ''autoboot'' (Bool True) own0))))))), None),
            nics_prop = (if n0 = None then Some Empty_object else n0),
            disks_prop =
              (if member (own0, None) ''brand'' \<in> {Str ''bhyve'', Str ''kvm''} \<and> d0 = None
               then Some Empty_object else d0)\<rparr>)"
proof -
  have m: "member (own0, None) ''max_locked_memory'' = Undefined"
    "member (own0, None) ''zpool'' = Undefined" "member (own0, None) ''zfs_io_priority'' = Undefined"
    using f by (simp_all add: member_plain)
  have n: "n0 = None \<or> (\<exists>y. n0 = Some y)" by (cases n0) auto
  show ?thesis
  proof (cases "js_to_string (member (own0, None) ''uuid'')")
    case None
    show ?thesis
      by (cases "member (own0, None) ''max_swap'' = Undefined")
         (simp_all add: fill_defaults_def assign_plain Let_def member_put m None)
  next
    case (Some us)
    show ?thesis
      by (cases "member (own0, None) ''max_swap'' = Undefined"; cases n0; cases d0;
          cases "member (own0, None) ''brand'' = Str ''bhyve''";
          cases "member (own0, None) ''brand'' = Str ''kvm''")
         (simp_all add: fill_defaults_def assign_plain Let_def member_put m Some inherited_def)
  qed
qed



lemma VM_PAYLOAD_lookups:
  "map_of VM_PAYLOAD ''max_locked_memory'' = None"
  "map_of VM_PAYLOAD ''zpool'' = None"
  "map_of VM_PAYLOAD ''zfs_io_priority'' = Some False"
  "map_of VM_PAYLOAD ''uuid'' = Some True"
  "map_of VM_PAYLOAD ''max_swap'' = Some True"
  "map_of VM_PAYLOAD ''brand'' = Some True"
  "map_of VM_PAYLOAD ''autoboot'' = None"
  "map_of VM_PAYLOAD ''datasets'' = None"
  "map_of VM_PAYLOAD ''limit_priv'' = None"
  "map_of VM_PAYLOAD ''zfs_filesystem'' = None"
  "map_of VM_PAYLOAD ''zonepath'' = None"
  by (simp_all add: VM_PAYLOAD_def)

lemma loop_props:
  assumes "map_payload_keys kvs (map fst kvs) (newPayload0, []) = Some st"
    and "plain_keys kvs"
  shows "snd (props (fst st)) = None"
    and "map_of (fst (props (fst st))) =
           (\<lambda>k. if k \<noteq> ''nics'' \<and> k \<noteq> ''disks'' then whitelisted VM_PAYLOAD kvs k else None)"
    and "nics_prop (fst st) =
           (if hasOwnProperty kvs ''nics'' then Some (Mapped (fst (map_things NIC_PAYLOAD ''nic'' 0 (things_of kvs ''nics'') [])))
            else None)"
    and "disks_prop (fst st) =
           (if hasOwnProperty kvs ''disks'' then Some (Mapped (fst (map_things DISK_PAYLOAD ''disk'' 0 (things_of kvs ''disks'') [])))
            else None)"
    and "\<forall>k\<in>set (map fst kvs). map_of VM_PAYLOAD k = None \<longrightarrow> k \<in> set (snd st)"
proof -
  have pk: "set (map fst kvs) \<inter> set object_prototype_names = {}"
    using assms(2) by (simp add: plain_keys_def)
  note inv = map_payload_keys_plain [OF assms(1) pk]
  show "snd (props (fst st)) = None"
    using inv by (simp add: newPayload0_def empty_object_def)
  have "map_of (fst (props (fst st))) k =
          (if k \<noteq> ''nics'' \<and> k \<noteq> ''disks'' then whitelisted VM_PAYLOAD kvs k else None)" for k
  proof (cases "k \<in> set (map fst kvs)")
    case True
    then show ?thesis
      using inv js_get_of_key [OF True]
      by (simp add: newPayload0_def empty_object_def whitelisted_def)
  next
    case False
    then have "map_of kvs k = None" by (simp add: map_of_eq_None_iff)
    then show ?thesis
      using inv False by (simp add: newPayload0_def empty_object_def whitelisted_def)
  qed
  then show "map_of (fst (props (fst st))) =
           (\<lambda>k. if k \<noteq> ''nics'' \<and> k \<noteq> ''disks'' then whitelisted VM_PAYLOAD kvs k else None)"
    by (rule ext)
  have arr: "\<exists>xs. js_get kvs k = Arr xs" if "k \<in> set (map fst kvs)" "k = ''nics'' \<or> k = ''disks''" for k
    using inv that by blast
  show "nics_prop (fst st) =
           (if hasOwnProperty kvs ''nics'' then Some (Mapped (fst (map_things NIC_PAYLOAD ''nic'' 0 (things_of kvs ''nics'') [])))
            else None)"
  proof (cases "hasOwnProperty kvs ''nics''")
    case True
    then obtain xs where "js_get kvs ''nics'' = Arr xs"
      using arr [of "''nics''"] by (auto simp: hasOwnProperty_def)
    then show ?thesis
      using inv True by (simp add: hasOwnProperty_def nics_from_def things_of_def)
  next
    case False
    then show ?thesis
      using inv by (simp add: hasOwnProperty_def newPayload0_def)
  qed
  show "disks_prop (fst st) =
           (if hasOwnProperty kvs ''disks'' then Some (Mapped (fst (map_things DISK_PAYLOAD ''disk'' 0 (things_of kvs ''disks'') [])))
            else None)"
  proof (cases "hasOwnProperty kvs ''disks''")
    case True
    then obtain xs where "js_get kvs ''disks'' = Arr xs"
      using arr [of "''disks''"] by (auto simp: hasOwnProperty_def)
    then show ?thesis
      using inv True by (simp add: hasOwnProperty_def nics_from_def things_of_def)
  next
    case False
    then show ?thesis
      using inv by (simp add: hasOwnProperty_def newPayload0_def)
  qed
  show "\<forall>k\<in>set (map fst kvs). map_of VM_PAYLOAD k = None \<longrightarrow> k \<in> set (snd st)"
  proof (intro ballI impI)
    fix k assume k: "k \<in> set (map fst kvs)" and u: "map_of VM_PAYLOAD k = None"
    have "k \<noteq> ''nics'' \<and> k \<noteq> ''disks''" using u by (auto simp: VM_PAYLOAD_def)
    then show "k \<in> set (snd st)" using inv k u by blast
  qed
qed



lemma member_of_loop:
  assumes "map_of own1 = (\<lambda>k. if k \<noteq> ''nics'' \<and> k \<noteq> ''disks'' then whitelisted VM_PAYLOAD kvs k else None)"
    and "map_of VM_PAYLOAD name = Some True" and "name \<noteq> ''nics''" and "name \<noteq> ''disks''"
  shows "member (own1, None) name = js_get kvs name"
  using assms by (simp add: member_plain whitelisted_def js_get_def)

lemma reported_thing_key:
  "set (snd (map_thing_key M name idx thing key st)) \<subseteq>
     set (snd st) \<union> {s. \<exists>rest. s = name @ ''.'' @ rest}"
  by (auto simp: map_thing_key_def split: listing.splits bool.splits)

lemma reported_fold:
  "set (snd (fold (map_thing_key M name idx thing) keys st)) \<subseteq>
     set (snd st) \<union> {s. \<exists>rest. s = name @ ''.'' @ rest}"
proof (induction keys arbitrary: st)
  case Nil
  show ?case by simp
next
  case (Cons key keys)
  show ?case
    using Cons.IH [of "map_thing_key M name idx thing key st"]
      reported_thing_key [of M name idx thing key st]
    by auto
qed

lemma reported_things:
  "set (snd (map_things M name idx xs ign)) \<subseteq>
     set ign \<union> {s. \<exists>rest. s = name @ ''.'' @ rest}"
proof (induction xs arbitrary: idx ign)
  case Nil
  show ?case by simp
next
  case (Cons x xs)
  let ?st = "fold (map_thing_key M name idx (props_of x)) (map fst (props_of x)) (empty_object, ign)"
  have "set (snd ?st) \<subseteq> set ign \<union> {s. \<exists>rest. s = name @ ''.'' @ rest}"
    using reported_fold [of M name idx "props_of x" "map fst (props_of x)" "(empty_object, ign)"]
    by simp
  moreover have "set (snd (map_things M name (idx + 1) xs (snd ?st))) \<subseteq>
      set (snd ?st) \<union> {s. \<exists>rest. s = name @ ''.'' @ rest}"
    by (rule Cons.IH)
  ultimately show ?case by (simp add: Let_def props_of_def) blast
qed

lemma reported_key:
  assumes "map_payload_key kvs key st = Some st'"
  shows "set (snd st') \<subseteq>
     set (snd st) \<union> {k. k = key \<and> map_of VM_PAYLOAD k = None} \<union> {s. nested_entry s}"
proof -
  consider (nics) "key = ''nics''" | (disks) "key = ''disks''"
    | (other) "key \<noteq> ''nics''" "key \<noteq> ''disks''" by blast
  then show ?thesis
  proof cases
    case nics
    then obtain xs where "snd st' = snd (map_things NIC_PAYLOAD ''nic'' 0 xs (snd st))"
      using assms
      by (auto simp: map_payload_key_def map_thing_def split: option.splits jsval.splits if_splits)
         (metis snd_conv)
    then show ?thesis
      using reported_things [of NIC_PAYLOAD "''nic''" 0 xs "snd st"]
      by (auto simp: nested_entry_def)
  next
    case disks
    then obtain xs where "snd st' = snd (map_things DISK_PAYLOAD ''disk'' 0 xs (snd st))"
      using assms
      by (auto simp: map_payload_key_def map_thing_def split: option.splits jsval.splits if_splits)
         (metis snd_conv)
    then show ?thesis
      using reported_things [of DISK_PAYLOAD "''disk''" 0 xs "snd st"]
      by (auto simp: nested_entry_def)
  next
    case other
    then show ?thesis
      using assms
      by (auto simp: map_payload_key_def listing_of_def split: option.splits listing.splits bool.splits if_splits)
  qed
qed

lemma reported_keys:
  assumes "map_payload_keys kvs keys st = Some st'"
  shows "set (snd st') \<subseteq>
     set (snd st) \<union> {k. k \<in> set keys \<and> map_of VM_PAYLOAD k = None} \<union> {s. nested_entry s}"
  using assms
proof (induction keys arbitrary: st)
  case Nil
  then show ?case by auto
next
  case (Cons key keys)
  obtain st1 where s1: "map_payload_key kvs key st = Some st1"
    and s2: "map_payload_keys kvs keys st1 = Some st'"
    using Cons.prems by (auto split: option.splits)
  show ?case
    using Cons.IH [OF s2] reported_key [OF s1] by auto
qed

lemma listed_not_nested: "map_of VM_PAYLOAD k \<noteq> None \<Longrightarrow> \<not> nested_entry k"
proof -
  assume "map_of VM_PAYLOAD k \<noteq> None"
  then have "k \<in> set (map fst VM_PAYLOAD)"
    by (metis map_of_eq_None_iff set_map)
  then show "\<not> nested_entry k"
    by (auto simp: VM_PAYLOAD_def nested_entry_def)
qed

lemma listed_never_reported:
  assumes "map_payload payload = Some (np, ignored)" and "map_of VM_PAYLOAD k \<noteq> None"
  shows "k \<notin> set ignored"
proof -
  obtain kvs st where "map_payload_keys kvs (map fst kvs) (newPayload0, []) = Some st"
    and "ignored = snd st"
    using assms(1) by (auto simp: map_payload_def split: option.splits)
  then show ?thesis
    using reported_keys [of kvs "map fst kvs" "(newPayload0, [])" st] assms(2)
      listed_not_nested [OF assms(2)]
    by auto
qed

text \<open>
  Claim C10, as the code has it. Let \<open>map_payload\<close> return for a payload object none of
  whose keys, at the top level and inside the elements of \<open>nics\<close> and \<open>disks\<close>, names a
  member of \<open>Object.prototype\<close>. Then the prototype of the result is untouched and its own
  properties other than \<open>nics\<close> and \<open>disks\<close> are exactly: the properties of the payload
  that \<open>VM_PAYLOAD\<close> lists as \<open>true\<close>, with their values; \<open>autoboot = true\<close>,
  \<open>datasets = []\<close>, \<open>limit_priv = "default"\<close>, \<open>zpool = "zones"\<close>,
  \<open>zfs_filesystem = "zones/" + uuid\<close>, \<open>zonepath = "/zones/" + uuid\<close>,
  \<open>zfs_io_priority = 100\<close>; and \<open>max_locked_memory = max_swap\<close> when the payload has
  \<open>max_swap\<close>. \<open>nics\<close> and \<open>disks\<close>, when given, are the lists of their elements filtered
  to the keys that \<open>NIC_PAYLOAD\<close> and \<open>DISK_PAYLOAD\<close> list as \<open>true\<close>; otherwise \<open>nics\<close>
  is \<open>{}\<close>, and \<open>disks\<close> is \<open>{}\<close> for the brands \<open>bhyve\<close> and \<open>kvm\<close> and absent for
  the others. Every top-level key that \<open>VM_PAYLOAD\<close> does not list is put on
  \<open>opts.ignored\<close>, which is reported in a warning when it is not empty; a key that
  \<open>VM_PAYLOAD\<close> lists, as \<open>true\<close> or as \<open>false\<close>, is never reported.
\<close>

theorem map_payload_whitelist:
  assumes res: "map_payload (Obj kvs) = Some (np, ignored)"
    and top: "plain_keys kvs"
    and nested: "\<forall>x\<in>set (things_of kvs ''nics'') \<union> set (things_of kvs ''disks''). plain_keys (props_of x)"
  shows "\<exists>us. js_to_string (js_get kvs ''uuid'') = Some us \<and>
     snd (props np) = None \<and>
     map_of (fst (props np)) = expected_props kvs us \<and>
     (if hasOwnProperty kvs ''nics''
      then \<exists>ts. nics_prop np = Some (Mapped ts) \<and>
             list_all2 (\<lambda>x t. snd t = None \<and> map_of (fst t) = whitelisted NIC_PAYLOAD (props_of x))
               (things_of kvs ''nics'') ts
      else nics_prop np = Some Empty_object) \<and>
     (if hasOwnProperty kvs ''disks''
      then \<exists>ts. disks_prop np = Some (Mapped ts) \<and>
             list_all2 (\<lambda>x t. snd t = None \<and> map_of (fst t) = whitelisted DISK_PAYLOAD (props_of x))
               (things_of kvs ''disks'') ts
      else disks_prop np =
             (if js_get kvs ''brand'' \<in> {Str ''bhyve'', Str ''kvm''} then Some Empty_object else None)) \<and>
     (\<forall>k\<in>set (map fst kvs). map_of VM_PAYLOAD k = None \<longrightarrow> k \<in> set ignored) \<and>
     (\<forall>k. map_of VM_PAYLOAD k \<noteq> None \<longrightarrow> k \<notin> set ignored) \<and>
     warned ignored = (ignored \<noteq> [])"
proof -
  obtain st where loop: "map_payload_keys kvs (map fst kvs) (newPayload0, []) = Some st"
    and fill: "fill_defaults (fst st) = Some np" and ign: "ignored = snd st"
    using res by (auto simp: map_payload_def own_props_def split: option.splits)
  note lp = loop_props [OF loop top]
  obtain own1 n1 d1 where st1: "fst st = \<lparr>props = (own1, None), nics_prop = n1, disks_prop = d1\<rparr>"
    using lp(1) by (cases "fst st"; cases "props (fst st)") auto
  have own1: "map_of own1 = (\<lambda>k. if k \<noteq> ''nics'' \<and> k \<noteq> ''disks'' then whitelisted VM_PAYLOAD kvs k else None)"
    using lp(2) st1 by simp
  have fresh: "map_of own1 ''max_locked_memory'' = None" "map_of own1 ''zpool'' = None"
    "map_of own1 ''zfs_io_priority'' = None"
    by (simp_all add: own1 whitelisted_def VM_PAYLOAD_lookups)
  have mu: "member (own1, None) ''uuid'' = js_get kvs ''uuid''"
    and ms: "member (own1, None) ''max_swap'' = js_get kvs ''max_swap''"
    and mb: "member (own1, None) ''brand'' = js_get kvs ''brand''"
    by (rule member_of_loop [OF own1]; simp add: VM_PAYLOAD_lookups)+
  note ev = fill_defaults_eval [OF fresh, of n1 d1]
  obtain us where us: "js_to_string (js_get kvs ''uuid'') = Some us"
    using fill ev st1 mu by (cases "js_to_string (js_get kvs ''uuid'')") auto
  have np: "np = \<lparr>props =
              (put ''zfs_io_priority'' (Num 100)
                (put ''zonepath'' (Str (''/zones/'' @ us))
                  (put ''zfs_filesystem'' (Str (''zones/'' @ us))
                    (put ''zpool'' (Str ''zones'')
                      ((if js_get kvs ''max_swap'' \<noteq> Undefined
                        then put ''max_locked_memory'' (js_get kvs ''max_swap'')
                        else id)
                        (put ''limit_priv'' (Str ''default'')
                          (put ''datasets'' (Arr [])
                            (put ''autoboot'' (Bool True) own1))))))), None),
            nics_prop = (if n1 = None then Some Empty_object else n1),
            disks_prop =
              (if js_get kvs ''brand'' \<in> {Str ''bhyve'', Str ''kvm''} \<and> d1 = None
               then Some Empty_object else d1)\<rparr>"
  proof -
    have "fill_defaults (fst st) = Some \<lparr>props =
              (put ''zfs_io_priority'' (Num 100)
                (put ''zonepath'' (Str (''/zones/'' @ us))
                  (put ''zfs_filesystem'' (Str (''zones/'' @ us))
                    (put ''zpool'' (Str ''zones'')
                      ((if js_get kvs ''max_swap'' \<noteq> Undefined
                        then put ''max_locked_memory'' (js_get kvs ''max_swap'')
                        else id)
                        (put ''limit_priv'' (Str ''default'')
                          (put ''datasets'' (Arr [])
                            (put ''autoboot'' (Bool True) own1))))))), None),
            nics_prop = (if n1 = None then Some Empty_object else n1),
            disks_prop =
              (if js_get kvs ''brand'' \<in> {Str ''bhyve'', Str ''kvm''} \<and> d1 = None
               then Some Empty_object else d1)\<rparr>"
      unfolding st1 ev mu ms mb us by (simp only: option.case)
    then show ?thesis using fill by simp
  qed
  have a: "snd (props np) = None" by (simp add: np)
  have b: "map_of (fst (props np)) = expected_props kvs us"
  proof (cases "js_get kvs ''max_swap'' = Undefined")
    case True
    show ?thesis
      by (rule ext) (simp add: np True map_of_put own1 expected_props_def whitelisted_def
          VM_PAYLOAD_lookups)
  next
    case False
    show ?thesis
      by (rule ext) (simp add: np False map_of_put own1 expected_props_def whitelisted_def
          VM_PAYLOAD_lookups map_add_def)
  qed
  have pn: "\<forall>x\<in>set (things_of kvs ''nics''). plain_keys (props_of x)"
    and pd: "\<forall>x\<in>set (things_of kvs ''disks''). plain_keys (props_of x)"
    using nested by auto
  have n1: "n1 = (if hasOwnProperty kvs ''nics''
                  then Some (Mapped (fst (map_things NIC_PAYLOAD ''nic'' 0 (things_of kvs ''nics'') [])))
                  else None)"
    using lp(3) st1 by simp
  have d1: "d1 = (if hasOwnProperty kvs ''disks''
                  then Some (Mapped (fst (map_things DISK_PAYLOAD ''disk'' 0 (things_of kvs ''disks'') [])))
                  else None)"
    using lp(4) st1 by simp
  have c: "if hasOwnProperty kvs ''nics''
      then \<exists>ts. nics_prop np = Some (Mapped ts) \<and>
             list_all2 (\<lambda>x t. snd t = None \<and> map_of (fst t) = whitelisted NIC_PAYLOAD (props_of x))
               (things_of kvs ''nics'') ts
      else nics_prop np = Some Empty_object"
    using map_things_plain [OF pn, of NIC_PAYLOAD "''nic''" 0 "[]"] by (simp add: np n1)
  have d: "if hasOwnProperty kvs ''disks''
      then \<exists>ts. disks_prop np = Some (Mapped ts) \<and>
             list_all2 (\<lambda>x t. snd t = None \<and> map_of (fst t) = whitelisted DISK_PAYLOAD (props_of x))
               (things_of kvs ''disks'') ts
      else disks_prop np =
             (if js_get kvs ''brand'' \<in> {Str ''bhyve'', Str ''kvm''} then Some Empty_object else None)"
    using map_things_plain [OF pd, of DISK_PAYLOAD "''disk''" 0 "[]"] by (simp add: np d1)
  have e: "\<forall>k\<in>set (map fst kvs). map_of VM_PAYLOAD k = None \<longrightarrow> k \<in> set ignored"
    using lp(5) ign by simp
  have f: "warned ignored = (ignored \<noteq> [])" by (simp add: warned_def)
  have g: "\<forall>k. map_of VM_PAYLOAD k \<noteq> None \<longrightarrow> k \<notin> set ignored"
    using listed_never_reported [OF res] by blast
  show ?thesis using us a b c d e f g by blast
qed

text \<open>
  The statement of C10 at an instance: the payload with its result, and the own properties
  of the result as the theorem gives them.
\<close>

theorem map_payload_whitelist_witness:
  "map_payload (Obj [(''uuid'', Str ''u1''), (''brand'', Str ''kvm''), (''max_swap'', Num 512),
      (''zfs_io_priority'', Num 8), (''bogus'', Num 1),
      (''nics'', Arr [Obj [(''mac'', Str ''m''), (''state'', Str ''s''), (''extra'', Num 0)]])]) =
     Some (\<lparr>props =
              ([(''uuid'', Str ''u1''), (''brand'', Str ''kvm''), (''max_swap'', Num 512),
                (''autoboot'', Bool True), (''datasets'', Arr []),
                (''limit_priv'', Str ''default''), (''max_locked_memory'', Num 512),
                (''zpool'', Str ''zones''), (''zfs_filesystem'', Str ''zones/u1''),
                (''zonepath'', Str ''/zones/u1''), (''zfs_io_priority'', Num 100)],
               None),
            nics_prop = Some (Mapped [([(''mac'', Str ''m'')], None)]),
            disks_prop = Some Empty_object\<rparr>,
           [''bogus'', ''nic.0.extra'']) \<and>
   map_of [(''uuid'', Str ''u1''), (''brand'', Str ''kvm''), (''max_swap'', Num 512),
           (''autoboot'', Bool True), (''datasets'', Arr []),
           (''limit_priv'', Str ''default''), (''max_locked_memory'', Num 512),
           (''zpool'', Str ''zones''), (''zfs_filesystem'', Str ''zones/u1''),
           (''zonepath'', Str ''/zones/u1''), (''zfs_io_priority'', Num 100)] =
     expected_props [(''uuid'', Str ''u1''), (''brand'', Str ''kvm''), (''max_swap'', Num 512),
      (''zfs_io_priority'', Num 8), (''bogus'', Num 1),
      (''nics'', Arr [Obj [(''mac'', Str ''m''), (''state'', Str ''s''), (''extra'', Num 0)]])] ''u1''"
proof -
  let ?kvs = "[(''uuid'', Str ''u1''), (''brand'', Str ''kvm''), (''max_swap'', Num 512),
      (''zfs_io_priority'', Num 8), (''bogus'', Num 1),
      (''nics'', Arr [Obj [(''mac'', Str ''m''), (''state'', Str ''s''), (''extra'', Num 0)]])]"
  let ?np = "\<lparr>props =
              ([(''uuid'', Str ''u1''), (''brand'', Str ''kvm''), (''max_swap'', Num 512),
                (''autoboot'', Bool True), (''datasets'', Arr []),
                (''limit_priv'', Str ''default''), (''max_locked_memory'', Num 512),
                (''zpool'', Str ''zones''), (''zfs_filesystem'', Str ''zones/u1''),
                (''zonepath'', Str ''/zones/u1''), (''zfs_io_priority'', Num 100)],
               None),
            nics_prop = Some (Mapped [([(''mac'', Str ''m'')], None)]),
            disks_prop = Some Empty_object\<rparr>"
  have r: "map_payload (Obj ?kvs) = Some (?np, [''bogus'', ''nic.0.extra''])"
    by (simp add: VM_PAYLOAD_def NIC_PAYLOAD_def map_payload_def own_props_def
        map_payload_key_def listing_of_def object_prototype_names_def newPayload0_def
        empty_object_def assign_def fill_defaults_def member_def inherited_def js_get_def
        map_thing_def map_thing_key_def show_nat.simps props_of_def)
  have t: "plain_keys ?kvs"
    by (simp add: plain_keys_def object_prototype_names_def)
  have n: "\<forall>x\<in>set (things_of ?kvs ''nics'') \<union> set (things_of ?kvs ''disks''). plain_keys (props_of x)"
    by (simp add: things_of_def js_get_def props_of_def own_props_def plain_keys_def
        object_prototype_names_def)
  show ?thesis
    using map_payload_whitelist [OF r t n] r by (simp add: js_get_def)
qed

text \<open>
  Against C10 as stated (only whitelisted keys are kept, all others are dropped silently):
  neither \<open>constructor\<close> nor \<open>foo\<close> is in \<open>VM_PAYLOAD\<close>, yet \<open>constructor\<close> is copied into
  the result, because \<open>VM_PAYLOAD["constructor"]\<close> is the inherited function, and \<open>foo\<close> is
  dropped with a warning.
\<close>

theorem unlisted_keys_kept_or_reported:
  "map_of VM_PAYLOAD ''constructor'' = None \<and> map_of VM_PAYLOAD ''foo'' = None \<and>
   map_payload (Obj [(''foo'', Num 1), (''constructor'', Num 3)]) =
     Some (\<lparr>props =
              ([(''constructor'', Num 3), (''autoboot'', Bool True), (''datasets'', Arr []),
                (''limit_priv'', Str ''default''), (''zpool'', Str ''zones''),
                (''zfs_filesystem'', Str ''zones/undefined''),
                (''zonepath'', Str ''/zones/undefined''), (''zfs_io_priority'', Num 100)],
               None),
            nics_prop = Some Empty_object, disks_prop = None\<rparr>,
           [''foo'']) \<and>
   warned [''foo'']"
  by (simp add: VM_PAYLOAD_def map_payload_def own_props_def map_payload_key_def listing_of_def
      object_prototype_names_def newPayload0_def empty_object_def assign_def fill_defaults_def
      member_def inherited_def warned_def js_get_def)

section \<open>Properties of the tasks\<close>

lemma bounded_sorted_mono: "bounded_sorted b vs \<Longrightarrow> b \<le> c \<Longrightarrow> bounded_sorted c vs"
  by (auto simp: bounded_sorted_def)

lemma bounded_sorted_progress:
  assumes "bounded_sorted b (reported t)" and "b \<le> c" and "0 \<le> c"
  shows "bounded_sorted c (reported (task_progress c t))"
  using assms by (auto simp: bounded_sorted_def task_progress_def sorted_append)

lemma reported_task_finish [simp]: "reported (task_finish r t) = reported t"
  by (simp add: task_finish_def)

lemma reported_task_fatal [simp]: "reported (task_fatal m d e t) = reported t"
  by (simp add: task_fatal_def)

lemma pipeline_bounded:
  assumes "list_all2 (\<lambda>f c. \<forall>s b. b \<le> c \<longrightarrow> bounded_sorted b (reported (proj s)) \<longrightarrow>
              bounded_sorted c (reported (proj (state_of (f s))))) fs cs"
    and "sorted (b # cs)"
    and "bounded_sorted b (reported (proj s))"
  shows "bounded_sorted (last (b # cs)) (reported (proj (state_of (pipeline fs s))))"
  using assms
proof (induction fs cs arbitrary: b s rule: list_all2_induct)
  case Nil
  then show ?case by simp
next
  case (Cons f fs c cs)
  have bc: "b \<le> c" and sc: "sorted (c # cs)" using Cons.prems(1) by auto
  have st: "bounded_sorted c (reported (proj (state_of (f s))))"
    using Cons.hyps(1) bc Cons.prems(2) by blast
  have cl: "c \<le> last (c # cs)"
    using sc by (cases cs) (auto simp: last_conv_nth intro: sorted_nth_mono)
  show ?case
  proof (cases "f s")
    case (Continue s')
    then have "bounded_sorted c (reported (proj s'))" using st by simp
    from Cons.IH [OF sc this] show ?thesis using Continue by simp
  next
    case (Abort err s')
    then show ?thesis using st cl by (auto intro: bounded_sorted_mono)
  next
    case (Stopped s')
    then show ?thesis using st cl by (auto intro: bounded_sorted_mono)
  next
    case (Thrown s')
    then show ?thesis using st cl by (auto intro: bounded_sorted_mono)
  qed
qed

lemma declared_step_bounded:
  assumes fn: "\<And>s. reported (run (state_of (fn s))) = reported (run s)"
    and c: "map_of machine_create_steps name = Some c" "0 \<le> c"
    and b: "b \<le> c" "bounded_sorted b (reported (run s))"
  shows "bounded_sorted c (reported (run (state_of (declared_step name fn s))))"
proof (cases "fn s")
  case (Continue s')
  have "bounded_sorted b (reported (run s'))" using fn [of s] Continue b(2) by simp
  then have "bounded_sorted b (reported ((run s')\<lparr>steps_completed := steps_completed (run s') @ [name]\<rparr>))"
    by simp
  from bounded_sorted_progress [OF this b(1) c(2)] show ?thesis
    using Continue c(1) by (simp add: declared_step_def)
next
  case (Abort err s')
  then show ?thesis
    using fn [of s] b by (auto simp: declared_step_def intro: bounded_sorted_mono)
next
  case (Stopped s')
  then show ?thesis
    using fn [of s] b by (auto simp: declared_step_def intro: bounded_sorted_mono)
next
  case (Thrown s')
  then show ?thesis
    using fn [of s] b by (auto simp: declared_step_def intro: bounded_sorted_mono)
qed

lemma pre_check_reported: "reported (run (state_of (pre_check env self s))) = reported (run s)"
  by (simp add: pre_check_def split: sum.splits option.splits)

lemma ensure_dataset_present_reported:
  "reported (run (state_of (ensure_dataset_present s))) = reported (run s)"
  by (simp add: ensure_dataset_present_def)

lemma fetch_dataset_reported: "reported (run (state_of (fetch_dataset s))) = reported (run s)"
  by (simp add: fetch_dataset_def)

lemma build_payload_reported:
  "reported (run (state_of (build_payload self s))) = reported (run s)"
  by (simp add: build_payload_def split: option.splits)

lemma create_machine_reported:
  "reported (run (state_of (create_machine env self s))) = reported (run s)"
  by (simp add: create_machine_def split: option.splits prod.splits)

lemma checkpoints:
  "map_of machine_create_steps ''pre_check'' = Some 20"
  "map_of machine_create_steps ''ensure_dataset_present'' = Some 30"
  "map_of machine_create_steps ''fetch_dataset'' = Some 50"
  "map_of machine_create_steps ''build_payload'' = Some 60"
  "map_of machine_create_steps ''create_machine'' = Some 100"
  by (simp_all add: machine_create_steps_def)

lemma doPrecheck_bounded:
  assumes "b \<le> 20" "bounded_sorted b (reported (run s))"
  shows "bounded_sorted 20 (reported (run (state_of (doPrecheck env self s))))"
proof -
  have "bounded_sorted 20 (reported (run (state_of (declared_step ''pre_check'' (pre_check env self) s))))"
    by (rule declared_step_bounded [OF pre_check_reported checkpoints(1) _ assms]) simp
  then show ?thesis
    by (cases "declared_step ''pre_check'' (pre_check env self) s") (simp_all add: doPrecheck_def)
qed

lemma machine_create_pipeline_bounded:
  "bounded_sorted 100 (reported (run (state_of (pipeline
     [doPrecheck env self,
      createProvisionLockFile env self,
      declared_step ''ensure_dataset_present'' ensure_dataset_present,
      declared_step ''fetch_dataset'' fetch_dataset,
      declared_step ''build_payload'' (build_payload self),
      declared_step ''create_machine'' (create_machine env self),
      deleteProvisionLockFile env] (mc_state0 (w :: 'w))))))"
proof -
  have 1: "\<forall>s b. b \<le> 20 \<longrightarrow> bounded_sorted b (reported (run s)) \<longrightarrow>
      bounded_sorted 20 (reported (run (state_of (doPrecheck env self s))))"
    using doPrecheck_bounded by blast
  have 2: "\<forall>s b. b \<le> 20 \<longrightarrow> bounded_sorted b (reported (run s)) \<longrightarrow>
      bounded_sorted 20 (reported (run (state_of (createProvisionLockFile env self s))))"
    by (auto simp: createProvisionLockFile_def intro: bounded_sorted_mono split: prod.splits)
  have 3: "\<forall>(s :: 'w mc_state) b. b \<le> 30 \<longrightarrow> bounded_sorted b (reported (run s)) \<longrightarrow>
      bounded_sorted 30 (reported (run (state_of (declared_step ''ensure_dataset_present'' ensure_dataset_present s))))"
    by (intro allI impI)
       (rule declared_step_bounded [OF ensure_dataset_present_reported checkpoints(2)], simp, assumption, assumption)
  have 4: "\<forall>(s :: 'w mc_state) b. b \<le> 50 \<longrightarrow> bounded_sorted b (reported (run s)) \<longrightarrow>
      bounded_sorted 50 (reported (run (state_of (declared_step ''fetch_dataset'' fetch_dataset s))))"
    by (intro allI impI)
       (rule declared_step_bounded [OF fetch_dataset_reported checkpoints(3)], simp, assumption, assumption)
  have 5: "\<forall>(s :: 'w mc_state) b. b \<le> 60 \<longrightarrow> bounded_sorted b (reported (run s)) \<longrightarrow>
      bounded_sorted 60 (reported (run (state_of (declared_step ''build_payload'' (build_payload self) s))))"
    by (intro allI impI)
       (rule declared_step_bounded [OF build_payload_reported checkpoints(4)], simp, assumption, assumption)
  have 6: "\<forall>s b. b \<le> 100 \<longrightarrow> bounded_sorted b (reported (run s)) \<longrightarrow>
      bounded_sorted 100 (reported (run (state_of (declared_step ''create_machine'' (create_machine env self) s))))"
    by (intro allI impI)
       (rule declared_step_bounded [OF create_machine_reported checkpoints(5)], simp, assumption, assumption)
  have 7: "\<forall>s b. b \<le> 100 \<longrightarrow> bounded_sorted b (reported (run s)) \<longrightarrow>
      bounded_sorted 100 (reported (run (state_of (deleteProvisionLockFile env s))))"
    by (auto simp: deleteProvisionLockFile_def intro: bounded_sorted_mono
        split: option.splits prod.splits)
  have 0: "bounded_sorted 0 (reported (run (mc_state0 w)))"
    by (simp add: mc_state0_def task_started_def bounded_sorted_def)
  show ?thesis
    using pipeline_bounded [where proj = run and b = 0 and cs = "[20, 20, 30, 50, 60, 100, 100]"
        and s = "mc_state0 w" and fs = "[doPrecheck env self,
      createProvisionLockFile env self,
      declared_step ''ensure_dataset_present'' ensure_dataset_present,
      declared_step ''fetch_dataset'' fetch_dataset,
      declared_step ''build_payload'' (build_payload self),
      declared_step ''create_machine'' (create_machine env self),
      deleteProvisionLockFile env]"] 0 1 2 3 4 5 6 7
    by simp
qed

lemma afterPipeline_reported: "reported (run (afterPipeline env self e s)) = reported (run s)"
  by (simp add: afterPipeline_def Let_def split: option.splits sum.splits)

lemma machine_create_bounded:
  "bounded_sorted 100 (reported (run (machine_create_start env self w)))"
proof (cases "own_props (self_sysinfo self) = None \<or> \<not> assert_uuid (js_prop (self_sysinfo self) ''UUID'')")
  case True
  then show ?thesis
    by (simp add: machine_create_start_def mc_state0_def task_started_def bounded_sorted_def)
next
  case False
  define r where "r = pipeline
     [doPrecheck env self,
      createProvisionLockFile env self,
      declared_step ''ensure_dataset_present'' ensure_dataset_present,
      declared_step ''fetch_dataset'' fetch_dataset,
      declared_step ''build_payload'' (build_payload self),
      declared_step ''create_machine'' (create_machine env self),
      deleteProvisionLockFile env] (mc_state0 w)"
  have start: "machine_create_start env self w =
      (case r of
         Continue s \<Rightarrow> afterPipeline env self None s
       | Abort err s \<Rightarrow> afterPipeline env self (Some err) s
       | Stopped s \<Rightarrow> s
       | Thrown s \<Rightarrow> s\<lparr>uncaught := True\<rparr>)"
    using False unfolding machine_create_start_def r_def by (simp only: if_False)
  have "reported (run (machine_create_start env self w)) = reported (run (state_of r))"
    unfolding start by (cases r) (simp_all add: afterPipeline_reported)
  then show ?thesis using machine_create_pipeline_bounded [of env self w] by (simp add: r_def)
qed

lemma rc_progress_bounded:
  assumes "b \<le> c" "0 \<le> c" "bounded_sorted b (reported (rc_run s))" "rc_run s' = rc_run s"
  shows "bounded_sorted c (reported (rc_run (rc_progress c s')))"
  using bounded_sorted_progress [of b "rc_run s" c] assms by (simp add: rc_progress_def)

lemma bail_bounded:
  "b \<le> 0 \<Longrightarrow> bounded_sorted b (reported (rc_run s)) \<Longrightarrow>
   bounded_sorted 0 (reported (rc_run (state_of (bailIfMissingPreconditions self s))))"
  by (auto simp: bailIfMissingPreconditions_def intro: bounded_sorted_mono)

lemma retrieve_bounded:
  assumes "b \<le> 10" "bounded_sorted b (reported (rc_run s))"
  shows "bounded_sorted 10 (reported (rc_run (state_of (retrieveKbmapiAddresses env s))))"
proof -
  have keep: "bounded_sorted 10 (reported (rc_run s))"
    using assms by (rule_tac bounded_sorted_mono)
  have prog: "bounded_sorted 10 (reported (rc_run (rc_progress 10 (s\<lparr>kbmapiaddr := a\<rparr>))))" for a
    by (rule rc_progress_bounded [OF assms(1) _ assms(2)]) simp_all
  show ?thesis
    using keep prog
    by (simp add: retrieveKbmapiAddresses_def split: sum.splits list.splits)
qed

lemma getSysinfo_bounded:
  assumes "b \<le> 25" "bounded_sorted b (reported (rc_run s))"
  shows "bounded_sorted 25 (reported (rc_run (state_of (getSysinfo self s))))"
proof -
  have keep: "bounded_sorted 25 (reported (rc_run s))"
    using assms by (rule_tac bounded_sorted_mono)
  have prog: "rc_run s' = rc_run s \<Longrightarrow> bounded_sorted 25 (reported (rc_run (rc_progress 25 s')))" for s'
    by (rule rc_progress_bounded [OF assms(1) _ assms(2)]) simp_all
  show ?thesis
    using keep by (simp add: getSysinfo_def Let_def prog)
qed

lemma onlyStaged_bounded:
  assumes "b \<le> 25" "bounded_sorted b (reported (rc_run s))"
  shows "bounded_sorted 25 (reported (rc_run (state_of (onlyStagedConfigCanBeActivated env self s))))"
proof -
  have keep: "bounded_sorted 25 (reported (rc_run s))"
    using assms by (rule_tac bounded_sorted_mono)
  show ?thesis
    using keep by (simp add: onlyStagedConfigCanBeActivated_def split: option.splits)
qed

lemma saveTemplate_bounded:
  assumes "b \<le> 50" "bounded_sorted b (reported (rc_run s))"
  shows "bounded_sorted 50 (reported (rc_run (state_of (saveTemplate self s))))"
proof -
  have keep: "bounded_sorted 50 (reported (rc_run s))"
    using assms by (rule_tac bounded_sorted_mono)
  have prog: "rc_run s' = rc_run s \<Longrightarrow> bounded_sorted 50 (reported (rc_run (rc_progress 50 s')))" for s'
    by (rule rc_progress_bounded [OF assms(1) _ assms(2)]) simp_all
  show ?thesis
    using keep by (simp add: saveTemplate_def prog)
qed

lemma doAction_bounded:
  assumes "b \<le> 65" "bounded_sorted b (reported (rc_run s))"
  shows "bounded_sorted 65 (reported (rc_run (state_of (doAction env self s))))"
proof -
  have keep: "bounded_sorted 65 (reported (rc_run s))"
    using assms by (rule_tac bounded_sorted_mono)
  have prog: "rc_run s' = rc_run s \<Longrightarrow> bounded_sorted 65 (reported (rc_run (rc_progress 65 s')))" for s'
    by (rule rc_progress_bounded [OF assms(1) _ assms(2)]) simp_all
  show ?thesis
    using keep by (simp add: doAction_def prog split: option.splits)
qed

lemma sysinfoUpdate_bounded:
  assumes "b \<le> 75" "bounded_sorted b (reported (rc_run s))"
  shows "bounded_sorted 75 (reported (rc_run (state_of (sysinfoUpdate env s))))"
proof -
  have keep: "bounded_sorted 75 (reported (rc_run s))"
    using assms by (rule_tac bounded_sorted_mono)
  have prog: "rc_run s' = rc_run s \<Longrightarrow> bounded_sorted 75 (reported (rc_run (rc_progress 75 s')))" for s'
    by (rule rc_progress_bounded [OF assms(1) _ assms(2)]) simp_all
  show ?thesis
    using keep by (simp add: sysinfoUpdate_def prog split: option.splits)
qed

lemma postUpdates_bounded:
  assumes "b \<le> 100" "bounded_sorted b (reported (rc_run s))"
  shows "bounded_sorted 100 (reported (rc_run (state_of (postUpdatesToKbmapi env self s))))"
proof -
  have keep: "bounded_sorted 100 (reported (rc_run s))"
    using assms by (rule_tac bounded_sorted_mono)
  have prog: "rc_run s' = rc_run s \<Longrightarrow> bounded_sorted 100 (reported (rc_run (rc_progress 100 s')))" for s'
    by (rule rc_progress_bounded [OF assms(1) _ assms(2)]) simp_all
  show ?thesis
    using keep by (simp add: postUpdatesToKbmapi_def prog split: option.splits)
qed

lemma recoveryConfigTaskCb_reported:
  "reported (rc_run (recoveryConfigTaskCb e s)) = reported (rc_run s)"
  by (simp add: recoveryConfigTaskCb_def split: option.splits)

lemma recovery_config_bounded:
  "bounded_sorted 100 (reported (rc_run (recovery_config_start env self)))"
proof (cases "own_props (rc_sysinfo self) = None \<or> \<not> assert_uuid (js_prop (rc_sysinfo self) ''UUID'')
     \<or> nullish (ctx_params (rc_req self))")
  case True
  then show ?thesis
    by (auto simp: recovery_config_start_def rc_state0_def task_started_def bounded_sorted_def)
next
  case False
  define fs where "fs =
     [bailIfMissingPreconditions self,
      retrieveKbmapiAddresses env,
      getSysinfo self,
      onlyStagedConfigCanBeActivated env self,
      saveTemplate self,
      doAction env self,
      sysinfoUpdate env,
      postUpdatesToKbmapi env self]"
  define r where "r = pipeline fs rc_state0"
  have start: "recovery_config_start env self =
      (case r of
         Continue s \<Rightarrow> recoveryConfigTaskCb None s
       | Abort err s \<Rightarrow> recoveryConfigTaskCb (Some err) s
       | Stopped s \<Rightarrow> s
       | Thrown s \<Rightarrow> s\<lparr>rc_uncaught := True\<rparr>)"
  proof -
    have a: "\<not> (own_props (rc_sysinfo self) = None \<or>
                \<not> assert_uuid (js_prop (rc_sysinfo self) ''UUID''))"
      and b: "\<not> nullish (ctx_params (rc_req self))"
      using False by auto
    show ?thesis
      unfolding recovery_config_start_def r_def fs_def by (simp only: a b if_False)
  qed
  have eq: "reported (rc_run (recovery_config_start env self)) = reported (rc_run (state_of r))"
    unfolding start by (cases r) (simp_all add: recoveryConfigTaskCb_reported)
  have 0: "bounded_sorted 0 (reported (rc_run rc_state0))"
    by (simp add: rc_state0_def task_started_def bounded_sorted_def)
  have steps: "list_all2 (\<lambda>f c. \<forall>s b. b \<le> c \<longrightarrow> bounded_sorted b (reported (rc_run s)) \<longrightarrow>
              bounded_sorted c (reported (rc_run (state_of (f s))))) fs [0, 10, 25, 25, 50, 65, 75, 100]"
    unfolding fs_def
    using bail_bounded retrieve_bounded getSysinfo_bounded onlyStaged_bounded saveTemplate_bounded
      doAction_bounded sysinfoUpdate_bounded postUpdates_bounded
    by simp
  have "bounded_sorted (last [0, 0, 10, 25, 25, 50, 65, 75, 100]) (reported (rc_run (state_of (pipeline fs rc_state0))))"
    by (rule pipeline_bounded [OF steps _ 0]) simp
  then show ?thesis using eq by (simp add: r_def)
qed

lemma assert_uuid_not_nullish: "assert_uuid (js_prop p name) \<Longrightarrow> \<not> nullish p"
  by (auto simp: nullish_def js_prop_def assert_uuid_def)

lemma machine_create_pipeline_run:
  assumes "assert_uuid (js_prop (ctx_params (self_req self)) ''uuid'')"
    and "assert_uuid (js_prop (ctx_sysinfo (self_req self)) ''UUID'')"
    and "vmadm_exists env (ctx_sysinfo (self_req self))
           (js_prop (ctx_params (self_req self)) ''uuid'') w = Inr False"
    and "provisionInProgressFile env (js_prop (ctx_params (self_req self)) ''uuid'') w =
           (Some filename, w1)"
    and "map_payload (ctx_params (self_req self)) = Some built"
    and "vmadm_create env (fst built) (ctx_req_id (self_req self)) (self_sysinfo self) w1 =
           (created, w2)"
    and "fs_unlink env filename w2 = (unlinked, w3)"
  shows "\<exists>s. pipeline
             [doPrecheck env self,
              createProvisionLockFile env self,
              declared_step ''ensure_dataset_present'' ensure_dataset_present,
              declared_step ''fetch_dataset'' fetch_dataset,
              declared_step ''build_payload'' (build_payload self),
              declared_step ''create_machine'' (create_machine env self),
              deleteProvisionLockFile env] (mc_state0 w) =
            (case created of
               None \<Rightarrow> Continue s
             | Some err \<Rightarrow> if truthy err then Abort err s else Continue s) \<and>
          \<not> uncaught s \<and>
          node s = (case created of
                      None \<Rightarrow> w3
                    | Some err \<Rightarrow> if truthy err then w2 else w3) \<and>
          run s = task_started
            \<lparr>steps_completed :=
               (case created of
                  None \<Rightarrow> [''pre_check'', ''ensure_dataset_present'', ''fetch_dataset'',
                            ''build_payload'', ''create_machine'']
                | Some err \<Rightarrow>
                    if truthy err
                    then [''pre_check'', ''ensure_dataset_present'', ''fetch_dataset'',
                          ''build_payload'']
                    else [''pre_check'', ''ensure_dataset_present'', ''fetch_dataset'',
                          ''build_payload'', ''create_machine'']),
             reported :=
               (case created of
                  None \<Rightarrow> [20, 30, 50, 60, 100]
                | Some err \<Rightarrow> if truthy err then [20, 30, 50, 60] else [20, 30, 50, 60, 100])\<rparr>"
proof -
  have n1: "\<not> nullish (ctx_params (self_req self))"
    and n2: "\<not> nullish (ctx_sysinfo (self_req self))"
    using assms(1,2) by (auto dest: assert_uuid_not_nullish)
  have s1: "doPrecheck env self (mc_state0 w) =
      Continue ((mc_state0 w)\<lparr>run := task_started\<lparr>steps_completed := [''pre_check''],
                                                    reported := [20]\<rparr>\<rparr>)"
    using assms(1,2,3) n1 n2
    by (simp add: doPrecheck_def declared_step_def pre_check_def checkpoints task_progress_def
        mc_state0_def task_started_def)
  have s2: "createProvisionLockFile env self
              ((mc_state0 w)\<lparr>run := task_started\<lparr>steps_completed := [''pre_check''],
                                                    reported := [20]\<rparr>\<rparr>) =
      Continue ((mc_state0 w1)\<lparr>run := task_started\<lparr>steps_completed := [''pre_check''],
                                                     reported := [20]\<rparr>,
                                creationGuardFilename := Some filename\<rparr>)"
    using n1 assms(4) by (simp add: createProvisionLockFile_def mc_state0_def)
  show ?thesis
  proof (cases created)
    case None
    show ?thesis
      using assms(6,7)
      apply (simp add: s1 s2)
      apply (cases unlinked)
       apply (auto simp: None declared_step_def ensure_dataset_present_def fetch_dataset_def
          build_payload_def create_machine_def deleteProvisionLockFile_def checkpoints
          task_progress_def task_started_def assms(5) mc_state0_def)
      done
  next
    case (Some err)
    show ?thesis
      using assms(6,7)
      apply (simp add: s1 s2)
      apply (cases unlinked)
       apply (auto simp: Some declared_step_def ensure_dataset_present_def fetch_dataset_def
          build_payload_def create_machine_def deleteProvisionLockFile_def checkpoints
          task_progress_def task_started_def assms(5) mc_state0_def)
      done
  qed
qed

lemma machine_create_start_cases:
  assumes "own_props (self_sysinfo self) \<noteq> None"
    and "assert_uuid (js_prop (self_sysinfo self) ''UUID'')"
    and "pipeline
             [doPrecheck env self,
              createProvisionLockFile env self,
              declared_step ''ensure_dataset_present'' ensure_dataset_present,
              declared_step ''fetch_dataset'' fetch_dataset,
              declared_step ''build_payload'' (build_payload self),
              declared_step ''create_machine'' (create_machine env self),
              deleteProvisionLockFile env] (mc_state0 w) = r"
  shows "machine_create_start env self w =
           (case r of
              Continue s \<Rightarrow> afterPipeline env self None s
            | Abort err s \<Rightarrow> afterPipeline env self (Some err) s
            | Stopped s \<Rightarrow> s
            | Thrown s \<Rightarrow> s\<lparr>uncaught := True\<rparr>)"
proof -
  have a: "\<not> (own_props (self_sysinfo self) = None \<or>
              \<not> assert_uuid (js_prop (self_sysinfo self) ''UUID''))"
    using assms(1,2) by simp
  show ?thesis
    unfolding machine_create_start_def assms(3) by (simp only: a if_False)
qed

text \<open>
  Claim C8, as the code has it. Let the uuid of the request and the two sysinfo UUIDs be
  valid, let no resource exist (\<open>vmadm.exists\<close> answers \<open>false\<close>), let the guard file be
  created, let \<open>map_payload\<close> return on the parameters, let \<open>vmadm.create\<close> succeed on the
  payload so built, and let \<open>vmadm.load\<close> succeed on the node as \<open>vmadm.create\<close> and the
  removal of the guard file left it. Then the five declared steps complete in declaration
  order, the checkpoints 20, 30, 50, 60, 100 are reported, the task ends \<open>COMPLETE\<close>, and
  \<open>finish\<close> receives \<open>{vm: machine}\<close> with the machine that \<open>vmadm.load\<close> returned after
  the creation; no exception escapes. A failing \<open>fs.unlink\<close> of the guard file is only
  logged.
\<close>

theorem machine_create_completes:
  assumes "own_props (self_sysinfo self) \<noteq> None"
    and "assert_uuid (js_prop (self_sysinfo self) ''UUID'')"
    and "assert_uuid (js_prop (ctx_params (self_req self)) ''uuid'')"
    and "assert_uuid (js_prop (ctx_sysinfo (self_req self)) ''UUID'')"
    and "vmadm_exists env (ctx_sysinfo (self_req self))
           (js_prop (ctx_params (self_req self)) ''uuid'') w = Inr False"
    and "provisionInProgressFile env (js_prop (ctx_params (self_req self)) ''uuid'') w =
           (Some filename, w1)"
    and "map_payload (ctx_params (self_req self)) = Some built"
    and "vmadm_create env (fst built) (ctx_req_id (self_req self)) (self_sysinfo self) w1 =
           (None, w2)"
    and "fs_unlink env filename w2 = (unlinked, w3)"
    and "vmadm_load env (self_sysinfo self)
           (js_prop (ctx_params (self_req self)) ''uuid'') w3 = Inr machine"
  shows "run (machine_create_start env self w) =
           \<lparr>state = COMPLETE, reported = [20, 30, 50, 60, 100],
            steps_completed = [''pre_check'', ''ensure_dataset_present'', ''fetch_dataset'',
                               ''build_payload'', ''create_machine''],
            finish_result = Some (Obj [(''vm'', machine)]), fatal_error = None\<rparr> \<and>
         node (machine_create_start env self w) = w3 \<and>
         \<not> uncaught (machine_create_start env self w)"
proof -
  obtain s where p: "pipeline
             [doPrecheck env self,
              createProvisionLockFile env self,
              declared_step ''ensure_dataset_present'' ensure_dataset_present,
              declared_step ''fetch_dataset'' fetch_dataset,
              declared_step ''build_payload'' (build_payload self),
              declared_step ''create_machine'' (create_machine env self),
              deleteProvisionLockFile env] (mc_state0 w) = Continue s"
    and u: "\<not> uncaught s" and n: "node s = w3"
    and r: "run s = task_started
              \<lparr>steps_completed := [''pre_check'', ''ensure_dataset_present'', ''fetch_dataset'',
                                   ''build_payload'', ''create_machine''],
               reported := [20, 30, 50, 60, 100]\<rparr>"
    using machine_create_pipeline_run [OF assms(3-9)] by auto
  have "\<not> nullish (ctx_params (self_req self))"
    using assms(3) by (rule assert_uuid_not_nullish)
  then have "machine_create_start env self w =
      s\<lparr>run := task_finish (Obj [(''vm'', machine)]) (run s)\<rparr>"
    using machine_create_start_cases [OF assms(1,2) p] n assms(10)
    by (simp add: afterPipeline_def)
  then show ?thesis
    using r u n by (simp add: task_finish_def task_started_def)
qed

text \<open>
  The statement of C8 at an instance. The node is the list of the machines created so
  far: \<open>vmadm.create\<close> appends a record made from the payload, \<open>vmadm.load\<close> returns the
  record with the uuid asked for, and \<open>fs.unlink\<close> fails.
\<close>

theorem machine_create_completes_witness:
  "run (machine_create_start
     \<lparr>vmadm_exists = (\<lambda>si u w. Inr (list_ex (\<lambda>m. js_prop m ''uuid'' = u) w)),
      provisionInProgressFile = (\<lambda>u w. (Some ''/tmp/guard'', w)),
      vmadm_create = (\<lambda>p rid si w.
        (None, w @ [Obj [(''uuid'', member (props p) ''uuid''),
                         (''brand'', member (props p) ''brand''),
                         (''state'', Str ''running'')]])),
      fs_unlink = (\<lambda>f w. (Some (Obj [(''message'', Str ''ENOENT'')]), w)),
      vmadm_load = (\<lambda>si u w.
        case filter (\<lambda>m. js_prop m ''uuid'' = u) w of
          [] \<Rightarrow> Inl (Obj [(''message'', Str ''no such machine'')])
        | m # ms \<Rightarrow> Inr m)\<rparr>
     \<lparr>self_sysinfo = Obj [(''UUID'', Str ''8acf94fb-5f16-44ee-b4ab-20a1431cf3a3'')],
      self_req = \<lparr>ctx_req_id = ''r1'', ctx_req_host = Null, ctx_serverAddress = Null,
              ctx_task = Str ''machine_create'',
              ctx_params = Obj [(''uuid'', Str ''a6a6d41c-4a4b-c9ad-e169-d0e610bde5ec''),
                                (''brand'', Str ''joyent-minimal'')],
              ctx_sysinfo = Obj [(''UUID'', Str ''8acf94fb-5f16-44ee-b4ab-20a1431cf3a3'')]\<rparr>\<rparr>
     []) =
   \<lparr>state = COMPLETE, reported = [20, 30, 50, 60, 100],
    steps_completed = [''pre_check'', ''ensure_dataset_present'', ''fetch_dataset'',
                       ''build_payload'', ''create_machine''],
    finish_result = Some (Obj [(''vm'', Obj [(''uuid'', Str ''a6a6d41c-4a4b-c9ad-e169-d0e610bde5ec''),
                                             (''brand'', Str ''joyent-minimal''),
                                             (''state'', Str ''running'')])]),
    fatal_error = None\<rparr>"
proof -
  let ?env = "\<lparr>vmadm_exists = (\<lambda>si u w. Inr (list_ex (\<lambda>m. js_prop m ''uuid'' = u) w)),
      provisionInProgressFile = (\<lambda>u w. (Some ''/tmp/guard'', w)),
      vmadm_create = (\<lambda>p rid si w.
        (None, w @ [Obj [(''uuid'', member (props p) ''uuid''),
                         (''brand'', member (props p) ''brand''),
                         (''state'', Str ''running'')]])),
      fs_unlink = (\<lambda>f w. (Some (Obj [(''message'', Str ''ENOENT'')]), w)),
      vmadm_load = (\<lambda>si u w.
        case filter (\<lambda>m. js_prop m ''uuid'' = u) w of
          [] \<Rightarrow> Inl (Obj [(''message'', Str ''no such machine'')])
        | m # ms \<Rightarrow> Inr m)\<rparr>"
  let ?self = "\<lparr>self_sysinfo = Obj [(''UUID'', Str ''8acf94fb-5f16-44ee-b4ab-20a1431cf3a3'')],
      self_req = \<lparr>ctx_req_id = ''r1'', ctx_req_host = Null, ctx_serverAddress = Null,
              ctx_task = Str ''machine_create'',
              ctx_params = Obj [(''uuid'', Str ''a6a6d41c-4a4b-c9ad-e169-d0e610bde5ec''),
                                (''brand'', Str ''joyent-minimal'')],
              ctx_sysinfo = Obj [(''UUID'', Str ''8acf94fb-5f16-44ee-b4ab-20a1431cf3a3'')]\<rparr>\<rparr>"
  let ?built = "\<lparr>props =
              ([(''uuid'', Str ''a6a6d41c-4a4b-c9ad-e169-d0e610bde5ec''),
                (''brand'', Str ''joyent-minimal''), (''autoboot'', Bool True),
                (''datasets'', Arr []), (''limit_priv'', Str ''default''),
                (''zpool'', Str ''zones''),
                (''zfs_filesystem'', Str ''zones/a6a6d41c-4a4b-c9ad-e169-d0e610bde5ec''),
                (''zonepath'', Str ''/zones/a6a6d41c-4a4b-c9ad-e169-d0e610bde5ec''),
                (''zfs_io_priority'', Num 100)], None),
             nics_prop = Some Empty_object, disks_prop = None\<rparr>"
  let ?vm = "Obj [(''uuid'', Str ''a6a6d41c-4a4b-c9ad-e169-d0e610bde5ec''),
                  (''brand'', Str ''joyent-minimal''), (''state'', Str ''running'')]"
  have u1: "assert_uuid (Str ''8acf94fb-5f16-44ee-b4ab-20a1431cf3a3'')"
    and u2: "assert_uuid (Str ''a6a6d41c-4a4b-c9ad-e169-d0e610bde5ec'')"
    by (simp_all add: assert_uuid_def hex_digits_def)
  have h1: "own_props (self_sysinfo ?self) \<noteq> None" by (simp add: own_props_def)
  have h2: "assert_uuid (js_prop (self_sysinfo ?self) ''UUID'')"
    by (simp add: js_prop_def js_get_def u1)
  have h3: "assert_uuid (js_prop (ctx_params (self_req ?self)) ''uuid'')"
    by (simp add: js_prop_def js_get_def u2)
  have h4: "assert_uuid (js_prop (ctx_sysinfo (self_req ?self)) ''UUID'')"
    by (simp add: js_prop_def js_get_def u1)
  have h5: "vmadm_exists ?env (ctx_sysinfo (self_req ?self))
              (js_prop (ctx_params (self_req ?self)) ''uuid'') [] = Inr False"
    by simp
  have h6: "provisionInProgressFile ?env (js_prop (ctx_params (self_req ?self)) ''uuid'') [] =
              (Some ''/tmp/guard'', [])"
    by simp
  have h7: "map_payload (ctx_params (self_req ?self)) = Some (?built, [])"
    by (simp add: VM_PAYLOAD_def map_payload_def own_props_def map_payload_key_def listing_of_def
        object_prototype_names_def newPayload0_def empty_object_def assign_def fill_defaults_def
        member_def inherited_def js_get_def)
  have h8: "vmadm_create ?env (fst (?built, [])) (ctx_req_id (self_req ?self)) (self_sysinfo ?self) [] =
              (None, [?vm])"
    by (simp add: member_def)
  have h9: "fs_unlink ?env ''/tmp/guard'' [?vm] = (Some (Obj [(''message'', Str ''ENOENT'')]), [?vm])"
    by simp
  have h10: "vmadm_load ?env (self_sysinfo ?self)
               (js_prop (ctx_params (self_req ?self)) ''uuid'') [?vm] = Inr ?vm"
    by (simp add: js_prop_def js_get_def)
  show ?thesis
    using machine_create_completes [OF h1 h2 h3 h4 h5 h6 h7 h8 h9 h10] by simp
qed

text \<open>
  Against C8 as stated (every dispatch with a valid unseen uuid completes): with
  \<open>nics\<close> given as a string, \<open>assert.arrayOfObject\<close> throws inside \<open>build_payload\<close>; the
  run stops after three steps, \<open>vmadm.create\<close> is never called (the node stays empty),
  the task stays \<open>RUNNING\<close> and neither \<open>finish\<close> nor \<open>fatal\<close> is called.
\<close>

theorem machine_create_bad_nics_never_completes:
  "assert_uuid (Str ''a6a6d41c-4a4b-c9ad-e169-d0e610bde5ec'') \<and>
   machine_create_start
     \<lparr>vmadm_exists = (\<lambda>si u w. Inr (list_ex (\<lambda>m. js_prop m ''uuid'' = u) w)),
      provisionInProgressFile = (\<lambda>u w. (Some ''/tmp/guard'', w)),
      vmadm_create = (\<lambda>p rid si w.
        (None, w @ [Obj [(''uuid'', member (props p) ''uuid''),
                         (''state'', Str ''running'')]])),
      fs_unlink = (\<lambda>f w. (None, w)),
      vmadm_load = (\<lambda>si u w.
        case filter (\<lambda>m. js_prop m ''uuid'' = u) w of
          [] \<Rightarrow> Inl (Obj [(''message'', Str ''no such machine'')])
        | m # ms \<Rightarrow> Inr m)\<rparr>
     \<lparr>self_sysinfo = Obj [(''UUID'', Str ''8acf94fb-5f16-44ee-b4ab-20a1431cf3a3'')],
      self_req = \<lparr>ctx_req_id = ''r1'', ctx_req_host = Null, ctx_serverAddress = Null,
              ctx_task = Str ''machine_create'',
              ctx_params = Obj [(''uuid'', Str ''a6a6d41c-4a4b-c9ad-e169-d0e610bde5ec''),
                                (''nics'', Str ''net0'')],
              ctx_sysinfo = Obj [(''UUID'', Str ''8acf94fb-5f16-44ee-b4ab-20a1431cf3a3'')]\<rparr>\<rparr>
     [] =
   \<lparr>run = \<lparr>state = RUNNING, reported = [20, 30, 50],
            steps_completed = [''pre_check'', ''ensure_dataset_present'', ''fetch_dataset''],
            finish_result = None, fatal_error = None\<rparr>,
    node = [],
    arg_dataset_exists = True, arg_payload = None, creationGuardFilename = Some ''/tmp/guard'',
    logged_errors = [], uncaught = True\<rparr>"
proof -
  have u1: "assert_uuid (Str ''8acf94fb-5f16-44ee-b4ab-20a1431cf3a3'')"
    and u2: "assert_uuid (Str ''a6a6d41c-4a4b-c9ad-e169-d0e610bde5ec'')"
    by (simp_all add: assert_uuid_def hex_digits_def)
  have b: "map_payload (Obj [(''uuid'', Str ''a6a6d41c-4a4b-c9ad-e169-d0e610bde5ec''),
                             (''nics'', Str ''net0'')]) = None"
    by (simp add: VM_PAYLOAD_def map_payload_def own_props_def map_payload_key_def listing_of_def
        object_prototype_names_def newPayload0_def empty_object_def assign_def js_get_def
        map_thing_def)
  show ?thesis
    by (simp add: machine_create_start_def own_props_def js_prop_def js_get_def u1 u2 b
        doPrecheck_def declared_step_def pre_check_def nullish_def createProvisionLockFile_def
        ensure_dataset_present_def fetch_dataset_def build_payload_def
        machine_create_steps_def task_progress_def mc_state0_def task_started_def)
qed

text \<open>
  The other two ends of a run that reaches \<open>create_machine\<close>, under the same first seven
  hypotheses. When \<open>vmadm.create\<close> fails, \<open>create_machine\<close> does not complete, the guard
  file is not removed, and the task ends \<open>FAILED\<close> with the message of the error. When
  only \<open>vmadm.load\<close> fails, the task ends \<open>COMPLETE\<close> and \<open>finish\<close> gets no payload.
\<close>

lemma machine_create_create_fails:
  assumes "own_props (self_sysinfo self) \<noteq> None"
    and "assert_uuid (js_prop (self_sysinfo self) ''UUID'')"
    and "assert_uuid (js_prop (ctx_params (self_req self)) ''uuid'')"
    and "assert_uuid (js_prop (ctx_sysinfo (self_req self)) ''UUID'')"
    and "vmadm_exists env (ctx_sysinfo (self_req self))
           (js_prop (ctx_params (self_req self)) ''uuid'') w = Inr False"
    and "provisionInProgressFile env (js_prop (ctx_params (self_req self)) ''uuid'') w =
           (Some filename, w1)"
    and "map_payload (ctx_params (self_req self)) = Some built"
    and "vmadm_create env (fst built) (ctx_req_id (self_req self)) (self_sysinfo self) w1 =
           (Some err, w2)"
    and "truthy err"
    and "fs_unlink env filename w2 = (unlinked, w3)"
  shows "state (run (machine_create_start env self w)) = FAILED \<and>
         reported (run (machine_create_start env self w)) = [20, 30, 50, 60] \<and>
         steps_completed (run (machine_create_start env self w)) =
           [''pre_check'', ''ensure_dataset_present'', ''fetch_dataset'', ''build_payload''] \<and>
         (\<exists>detail extra. fatal_error (run (machine_create_start env self w)) =
            Some (js_prop err ''message'', detail, extra)) \<and>
         node (machine_create_start env self w) = w2"
proof -
  obtain s where p: "pipeline
             [doPrecheck env self,
              createProvisionLockFile env self,
              declared_step ''ensure_dataset_present'' ensure_dataset_present,
              declared_step ''fetch_dataset'' fetch_dataset,
              declared_step ''build_payload'' (build_payload self),
              declared_step ''create_machine'' (create_machine env self),
              deleteProvisionLockFile env] (mc_state0 w) = Abort err s"
    and n: "node s = w2"
    and r: "run s = task_started
              \<lparr>steps_completed := [''pre_check'', ''ensure_dataset_present'', ''fetch_dataset'',
                                   ''build_payload''],
               reported := [20, 30, 50, 60]\<rparr>"
    using machine_create_pipeline_run [OF assms(3-8) assms(10)] assms(9) by auto
  have nn: "\<not> nullish (ctx_params (self_req self))"
    using assms(3) by (rule assert_uuid_not_nullish)
  have st: "machine_create_start env self w = afterPipeline env self (Some err) s"
    using machine_create_start_cases [OF assms(1,2) p] by simp
  show ?thesis
    unfolding st using nn r n
    by (auto simp: afterPipeline_def Let_def task_fatal_def task_started_def split: sum.splits)
qed

lemma machine_create_load_fails:
  assumes "own_props (self_sysinfo self) \<noteq> None"
    and "assert_uuid (js_prop (self_sysinfo self) ''UUID'')"
    and "assert_uuid (js_prop (ctx_params (self_req self)) ''uuid'')"
    and "assert_uuid (js_prop (ctx_sysinfo (self_req self)) ''UUID'')"
    and "vmadm_exists env (ctx_sysinfo (self_req self))
           (js_prop (ctx_params (self_req self)) ''uuid'') w = Inr False"
    and "provisionInProgressFile env (js_prop (ctx_params (self_req self)) ''uuid'') w =
           (Some filename, w1)"
    and "map_payload (ctx_params (self_req self)) = Some built"
    and "vmadm_create env (fst built) (ctx_req_id (self_req self)) (self_sysinfo self) w1 =
           (None, w2)"
    and "fs_unlink env filename w2 = (unlinked, w3)"
    and "vmadm_load env (self_sysinfo self)
           (js_prop (ctx_params (self_req self)) ''uuid'') w3 = Inl loadError"
    and "truthy loadError"
  shows "run (machine_create_start env self w) =
           \<lparr>state = COMPLETE, reported = [20, 30, 50, 60, 100],
            steps_completed = [''pre_check'', ''ensure_dataset_present'', ''fetch_dataset'',
                               ''build_payload'', ''create_machine''],
            finish_result = Some Undefined, fatal_error = None\<rparr>"
proof -
  obtain s where p: "pipeline
             [doPrecheck env self,
              createProvisionLockFile env self,
              declared_step ''ensure_dataset_present'' ensure_dataset_present,
              declared_step ''fetch_dataset'' fetch_dataset,
              declared_step ''build_payload'' (build_payload self),
              declared_step ''create_machine'' (create_machine env self),
              deleteProvisionLockFile env] (mc_state0 w) = Continue s"
    and n: "node s = w3"
    and r: "run s = task_started
              \<lparr>steps_completed := [''pre_check'', ''ensure_dataset_present'', ''fetch_dataset'',
                                   ''build_payload'', ''create_machine''],
               reported := [20, 30, 50, 60, 100]\<rparr>"
    using machine_create_pipeline_run [OF assms(3-9)] by auto
  have nn: "\<not> nullish (ctx_params (self_req self))"
    using assms(3) by (rule assert_uuid_not_nullish)
  have st: "machine_create_start env self w = afterPipeline env self None s"
    using machine_create_start_cases [OF assms(1,2) p] by simp
  show ?thesis
    unfolding st using nn r n assms(10,11)
    by (simp add: afterPipeline_def Let_def task_finish_def task_started_def)
qed

text \<open>
  Claim C9. For each task of the sources and every setting of a run (parameters,
  sysinfo, answers of the collaborators), the progress values reported are in
  non-decreasing order and lie in \<open>[0, 100]\<close>; so do the checkpoints declared for
  \<open>machine_create\<close>.
\<close>

theorem progress_monotone_and_bounded:
  "sorted (progress_reported t) \<and> (\<forall>v\<in>set (progress_reported t). 0 \<le> v \<and> v \<le> 100) \<and>
   sorted (map snd machine_create_steps) \<and>
   (\<forall>c\<in>set (map snd machine_create_steps). 0 \<le> c \<and> c \<le> 100)"
proof -
  have "bounded_sorted 100 (progress_reported t)"
    by (cases t) (simp_all add: machine_create_bounded recovery_config_bounded)
  then show ?thesis by (simp add: bounded_sorted_def machine_create_steps_def)
qed

text \<open>
  The statement of C9 at an instance: a staging run of the recovery-configuration task
  whose last call fails reports all six values.
\<close>

theorem progress_monotone_and_bounded_witness:
  "progress_reported
     ((Recovery_config
        \<lparr>getSdcConfig = Inr (Obj [(''datacenter_name'', Str ''dc''), (''dns_domain'', Str ''example.com'')]),
         dns_resolve = Inr [Str ''10.0.0.1''], writeSysinfo = None,
         client_put = Some (Obj [(''message'', Str ''timeout'')]),
         uuid_of = (\<lambda>v. Some (Str ''u'')), digest_hex = (\<lambda>v. Some (Str ''abcd'')),
         digest_uuid = (\<lambda>v. Some (Str ''u''))\<rparr>
        \<lparr>rc_sysinfo = Obj [(''UUID'', Str ''8acf94fb-5f16-44ee-b4ab-20a1431cf3a3''),
                            (''Zpool Encrypted'', Bool True), (''Zpool'', Str ''zones'')],
         rc_req = \<lparr>ctx_req_id = ''r1'', ctx_req_host = Null, ctx_serverAddress = Null,
                    ctx_task = Str ''recovery_config'',
                    ctx_params = Obj [(''action'', Str ''stage''), (''pivtoken'', Str ''g''),
                                      (''recovery_uuid'', Str ''u''), (''template'', Str ''t'')],
                    ctx_sysinfo = Null\<rparr>\<rparr>) :: unit task_instance) =
     [10, 25, 50, 65, 75, 100] \<and>
   sorted [10, 25, 50, 65, 75, 100 :: int] \<and>
   list_all (\<lambda>v. 0 \<le> v \<and> v \<le> 100) [10, 25, 50, 65, 75, 100 :: int]"
proof -
  let ?t = "(Recovery_config
        \<lparr>getSdcConfig = Inr (Obj [(''datacenter_name'', Str ''dc''), (''dns_domain'', Str ''example.com'')]),
         dns_resolve = Inr [Str ''10.0.0.1''], writeSysinfo = None,
         client_put = Some (Obj [(''message'', Str ''timeout'')]),
         uuid_of = (\<lambda>v. Some (Str ''u'')), digest_hex = (\<lambda>v. Some (Str ''abcd'')),
         digest_uuid = (\<lambda>v. Some (Str ''u''))\<rparr>
        \<lparr>rc_sysinfo = Obj [(''UUID'', Str ''8acf94fb-5f16-44ee-b4ab-20a1431cf3a3''),
                            (''Zpool Encrypted'', Bool True), (''Zpool'', Str ''zones'')],
         rc_req = \<lparr>ctx_req_id = ''r1'', ctx_req_host = Null, ctx_serverAddress = Null,
                    ctx_task = Str ''recovery_config'',
                    ctx_params = Obj [(''action'', Str ''stage''), (''pivtoken'', Str ''g''),
                                      (''recovery_uuid'', Str ''u''), (''template'', Str ''t'')],
                    ctx_sysinfo = Null\<rparr>\<rparr>) :: unit task_instance"
  have e: "progress_reported ?t = [10, 25, 50, 65, 75, 100]"
    by (simp add: recovery_config_start_def own_props_def assert_uuid_def hex_digits_def
        js_prop_def js_get_def nullish_def bailIfMissingPreconditions_def param_def
        retrieveKbmapiAddresses_def getSysinfo_def onlyStagedConfigCanBeActivated_def
        saveTemplate_def doAction_def sysinfoUpdate_def postUpdatesToKbmapi_def
        recoveryConfigTaskCb_def rc_progress_def task_progress_def task_fatal_def
        rc_state0_def task_started_def join_element_def props_of_def Let_def)
  show ?thesis
    using progress_monotone_and_bounded [of ?t] unfolding e by (simp add: list_all_iff)
qed

end
